theory Spec2Isabelle
  imports Complex_Main "HOL-Library.Sublist" "HOL-Library.Multiset" "HOL-Library.List_Lexorder"
    "HOL-Library.Char_ord"
begin

section \<open>Conventions of the embedding\<close>

text \<open>
  The development embeds the batch execution engine of the GNINA docking workflow:
  \<^verbatim>\<open>scripts/docking_engine.py\<close> (class \<^verbatim>\<open>GNINADockingEngine\<close>) and
  \<^verbatim>\<open>scripts/tiered_workflow.py\<close> (class \<^verbatim>\<open>TieredCNNWorkflow\<close>).

  \<^item> Python \<^verbatim>\<open>str\<close> is \<open>string\<close>; a character is a code point below 256.
  \<^item> Python \<^verbatim>\<open>float\<close> is \<open>rat\<close>: arithmetic and comparisons are exact, and NaN,
    infinities and rounding are outside the model. The builtin \<^verbatim>\<open>float(token)\<close> is a
    parameter \<open>pf :: string \<Rightarrow> rat option\<close>, \<open>None\<close> standing for \<^verbatim>\<open>ValueError\<close>.
  \<^item> A dictionary with optional keys is a record with \<open>option\<close> fields.
  \<^item> Exceptions are values of \<open>py_exception\<close>; a function that can raise returns
    \<open>py_exception + 'a\<close>.
  \<^item> The file system is an association list from paths to entries; the external tool is
    a function from a command line and a file system to an outcome and a new file system.
\<close>

datatype py_exception = ValueError | OSError | ZeroDivisionError | TypeError

section \<open>Strings\<close>

text \<open>\<^verbatim>\<open>str.isspace\<close> on one character (code points below 256).\<close>

definition py_isspace :: "char \<Rightarrow> bool" where
  "py_isspace c \<longleftrightarrow> c \<in> set [CHR 0x09, CHR 0x0A, CHR 0x0B, CHR 0x0C, CHR 0x0D,
     CHR 0x1C, CHR 0x1D, CHR 0x1E, CHR 0x1F, CHR 0x20, CHR 0x85, CHR 0xA0]"

text \<open>\<^verbatim>\<open>s.split()\<close>: the maximal runs of non-whitespace characters, left to right.\<close>

fun split_ws :: "string \<Rightarrow> string \<Rightarrow> string list" where
  "split_ws cur [] = (if cur = [] then [] else [cur])"
| "split_ws cur (c # cs) =
     (if py_isspace c then (if cur = [] then split_ws [] cs else cur # split_ws [] cs)
      else split_ws (cur @ [c]) cs)"

definition py_split :: "string \<Rightarrow> string list" where
  "py_split s = split_ws [] s"

text \<open>\<^verbatim>\<open>s.split(sep)\<close> for a one-character separator: every separator cuts, empty
  pieces are kept, and the empty string gives one empty piece.\<close>

fun split_sep :: "char \<Rightarrow> string \<Rightarrow> string \<Rightarrow> string list" where
  "split_sep sep cur [] = [cur]"
| "split_sep sep cur (c # cs) =
     (if c = sep then cur # split_sep sep [] cs else split_sep sep (cur @ [c]) cs)"

definition split_lines :: "string \<Rightarrow> string list" where
  "split_lines content = split_sep CHR 0x0A [] content"

text \<open>\<^verbatim>\<open>needle in s\<close> is \<^const>\<open>sublist\<close>, \<^verbatim>\<open>s.endswith(t)\<close> is \<^const>\<open>suffix\<close>.
  \<^verbatim>\<open>s.replace(old, new)\<close> replaces the non-overlapping occurrences of a non-empty
  \<open>old\<close>, scanning from the left.\<close>

fun py_replace :: "string \<Rightarrow> string \<Rightarrow> string \<Rightarrow> string" where
  "py_replace old new [] = []"
| "py_replace old new (c # cs) =
     (if prefix old (c # cs) \<and> old \<noteq> []
      then new @ py_replace old new (drop (length old) (c # cs))
      else c # py_replace old new cs)"

section \<open>File system\<close>

datatype fentry = File string | Unreadable | Directory

type_synonym filesystem = "(string \<times> fentry) list"

definition path_exists :: "filesystem \<Rightarrow> string \<Rightarrow> bool" where
  "path_exists fs p \<longleftrightarrow> map_of fs p \<noteq> None"

text \<open>\<^verbatim>\<open>open(p, 'r').read()\<close>: the content of a readable regular file, an exception
  otherwise.\<close>

definition read_text :: "filesystem \<Rightarrow> string \<Rightarrow> py_exception + string" where
  "read_text fs p = (case map_of fs p of Some (File c) \<Rightarrow> Inr c | _ \<Rightarrow> Inl OSError)"

text \<open>\<^verbatim>\<open>open(p, 'w')\<close> followed by writes: the entry at \<open>p\<close> is replaced.\<close>

definition write_text :: "filesystem \<Rightarrow> string \<Rightarrow> string \<Rightarrow> filesystem" where
  "write_text fs p c = (p, File c) # filter (\<lambda>(q, e). q \<noteq> p) fs"

text \<open>Removing a file.\<close>

definition delete_file :: "filesystem \<Rightarrow> string \<Rightarrow> filesystem" where
  "delete_file fs p = filter (\<lambda>(q, e). q \<noteq> p) fs"

text \<open>\<^verbatim>\<open>os.listdir(d)\<close>: the names \<open>n\<close> without a slash such that \<open>d/n\<close> is an entry;
  an exception when \<open>d\<close> is not a directory.\<close>

definition entry_name :: "string \<Rightarrow> string \<Rightarrow> string option" where
  "entry_name d p =
     (if prefix (d @ ''/'') p \<and> drop (length d + 1) p \<noteq> [] \<and>
         CHR ''/'' \<notin> set (drop (length d + 1) p)
      then Some (drop (length d + 1) p) else None)"

definition listdir :: "filesystem \<Rightarrow> string \<Rightarrow> py_exception + string list" where
  "listdir fs d =
     (case map_of fs d of
        Some Directory \<Rightarrow> Inr (remdups (List.map_filter (\<lambda>(p, e). entry_name d p) fs))
      | _ \<Rightarrow> Inl OSError)"

section \<open>Output parser\<close>

record pose =
  pose_id :: nat
  cnn_score :: rat
  cnn_affinity :: rat

text \<open>The loop over the lines of the artifact in \<^verbatim>\<open>parse_gnina_output\<close>. The bare
  \<^verbatim>\<open>except: continue\<close> swallows the \<^verbatim>\<open>IndexError\<close> of \<^verbatim>\<open>line.split()[-1]\<close> and the
  \<^verbatim>\<open>ValueError\<close> of \<^verbatim>\<open>float\<close>.\<close>

fun scan_lines :: "(string \<Rightarrow> rat option) \<Rightarrow> pose list \<Rightarrow> string list \<Rightarrow> pose list" where
  "scan_lines pf scores [] = scores"
| "scan_lines pf scores (line # rest) =
     (if sublist ''CNNscore'' line then
        (case py_split line of
           [] \<Rightarrow> scan_lines pf scores rest
         | t # ts \<Rightarrow>
             (case pf (last (t # ts)) of
                None \<Rightarrow> scan_lines pf scores rest
              | Some v \<Rightarrow>
                  scan_lines pf
                    (scores @ [\<lparr>pose_id = length scores + 1, cnn_score = v, cnn_affinity = v\<rparr>])
                    rest))
      else scan_lines pf scores rest)"

text \<open>The second half of \<^verbatim>\<open>parse_gnina_output\<close> reads the log file and keeps the scores
  whatever it finds; a failing read is caught by the outer handler.\<close>

definition parse_log :: "filesystem \<Rightarrow> string \<Rightarrow> pose list \<Rightarrow> pose list" where
  "parse_log fs log_file scores =
     (if path_exists fs log_file then
        (case read_text fs log_file of
           Inl e \<Rightarrow> scores
         | Inr log_content \<Rightarrow> (if sublist ''Total time'' log_content then scores else scores))
      else scores)"

definition parse_gnina_output ::
  "(string \<Rightarrow> rat option) \<Rightarrow> filesystem \<Rightarrow> string \<Rightarrow> string \<Rightarrow> pose list" where
  "parse_gnina_output pf fs output_sdf log_file =
     (if path_exists fs output_sdf then
        (case read_text fs output_sdf of
           Inl e \<Rightarrow> []
         | Inr content \<Rightarrow> parse_log fs log_file (scan_lines pf [] (split_lines content)))
      else parse_log fs log_file [])"

text \<open>The parser as the specification words it: the score of a recognised line, and the
  poses numbered from 1 in the order of their lines.\<close>

definition line_score :: "(string \<Rightarrow> rat option) \<Rightarrow> string \<Rightarrow> rat option" where
  "line_score pf line =
     (if sublist ''CNNscore'' line \<and> py_split line \<noteq> [] then pf (last (py_split line))
      else None)"

definition number_poses :: "nat \<Rightarrow> rat list \<Rightarrow> pose list" where
  "number_poses k vs =
     map (\<lambda>(i, v). \<lparr>pose_id = i + 1, cnn_score = v, cnn_affinity = v\<rparr>) (enumerate k vs)"

text \<open>A parser of unsigned decimals (\<^verbatim>\<open>12\<close>, \<^verbatim>\<open>0.91\<close>), used to run the model on examples;
  Python's \<^verbatim>\<open>float\<close> accepts these tokens with the same values.\<close>

definition digit_val :: "char \<Rightarrow> nat option" where
  "digit_val c = (if CHR ''0'' \<le> c \<and> c \<le> CHR ''9'' then Some (of_char c - 48) else None)"

fun digits_val :: "nat \<Rightarrow> string \<Rightarrow> nat option" where
  "digits_val acc [] = Some acc"
| "digits_val acc (c # cs) =
     (case digit_val c of None \<Rightarrow> None | Some d \<Rightarrow> digits_val (10 * acc + d) cs)"

definition decimal_float :: "string \<Rightarrow> rat option" where
  "decimal_float s =
     (let ip = takeWhile (\<lambda>c. c \<noteq> CHR ''.'') s; fp = drop (length ip + 1) s in
      if ip = [] \<or> (CHR ''.'' \<in> set s \<and> fp = []) then None
      else (case (digits_val 0 ip, digits_val 0 fp) of
              (Some i, Some f) \<Rightarrow> Some (of_nat i + of_nat f / of_nat (10 ^ length fp))
            | _ \<Rightarrow> None))"

section \<open>Configuration\<close>

text \<open>The entries of \<^verbatim>\<open>GNINADockingConfig\<close> that the engine reads: \<^verbatim>\<open>active_config\<close>,
  the GPU flag of \<^verbatim>\<open>base_config\<close> and \<^verbatim>\<open>hpc_config\<close>.\<close>

record config =
  exhaustiveness :: int
  num_modes :: int
  seed :: int
  cnn_scoring :: string
  cnn_rotation :: int
  min_rmsd_filter :: rat
  pose_sort_order :: int
  use_gpu :: bool
  base_use_gpu :: bool
  gpu_device :: int
  cpu_cores :: int
  add_hydrogens :: bool
  strip_hydrogens :: bool
  timeout :: int
  use_apptainer :: bool
  use_gpu_flag :: string
  apptainer_image :: string
  gnina_binary :: string

text \<open>The builtins \<^verbatim>\<open>str\<close> on integers and floats are parameters.\<close>

definition get_gnina_command_base ::
  "(int \<Rightarrow> string) \<Rightarrow> (rat \<Rightarrow> string) \<Rightarrow> config \<Rightarrow> string list" where
  "get_gnina_command_base str_int str_float cfg =
     [''--exhaustiveness'', str_int (exhaustiveness cfg),
      ''--num_modes'', str_int (num_modes cfg),
      ''--seed'', str_int (seed cfg),
      ''--cnn_scoring'', cnn_scoring cfg,
      ''--cnn_rotation'', str_int (cnn_rotation cfg),
      ''--min_rmsd_filter'', str_float (min_rmsd_filter cfg),
      ''--pose_sort_order'', str_int (pose_sort_order cfg)]
     @ (if use_gpu cfg \<and> base_use_gpu cfg then [''--device'', str_int (gpu_device cfg)]
        else [''--cpu'', str_int (cpu_cores cfg)])
     @ (if add_hydrogens cfg then [''--addH''] else [])
     @ (if strip_hydrogens cfg then [''--stripH''] else [])"

definition get_apptainer_command :: "config \<Rightarrow> string list \<Rightarrow> string list" where
  "get_apptainer_command cfg gnina_args =
     (if \<not> use_apptainer cfg then gnina_args
      else [''apptainer'', ''exec'', use_gpu_flag cfg, apptainer_image cfg, gnina_binary cfg]
           @ gnina_args)"

section \<open>Work items and the tool invoker\<close>

record row =
  receptor :: string
  ligand :: string
  site_id :: string
  center_x :: rat
  center_y :: rat
  center_z :: rat
  size_x :: rat
  size_y :: rat
  size_z :: rat

text \<open>The identity key of a work item, and the tag
  \<^verbatim>\<open>f"{row['receptor']}_{row['site_id']}_{row['ligand']}"\<close> that names its files and
  is its \<^verbatim>\<open>pair_id\<close> in the ledger.\<close>

definition item_key :: "row \<Rightarrow> string \<times> string \<times> string" where
  "item_key w = (receptor w, site_id w, ligand w)"

definition tag_of :: "row \<Rightarrow> string" where
  "tag_of w = receptor w @ ''_'' @ site_id w @ ''_'' @ ligand w"

fun py_join :: "string \<Rightarrow> string list \<Rightarrow> string" where
  "py_join sep [] = []"
| "py_join sep [x] = x"
| "py_join sep (x # y # ys) = x @ sep @ py_join sep (y # ys)"

text \<open>\<^verbatim>\<open>build_gnina_command\<close> returns the command, the artifact path and the log path.
  \<open>flexible_residues\<close> is \<open>None\<close> or a list; \<^verbatim>\<open>None\<close> and the empty list are falsy.\<close>

definition build_gnina_command ::
  "(int \<Rightarrow> string) \<Rightarrow> (rat \<Rightarrow> string) \<Rightarrow> config \<Rightarrow> row \<Rightarrow> string list option
     \<Rightarrow> string list \<times> string \<times> string" where
  "build_gnina_command str_int str_float cfg w flexible_residues =
     (let tag = tag_of w;
          output_sdf = ''gnina_out/'' @ tag @ ''_poses.sdf'';
          log_file = ''logs/'' @ tag @ ''.log'';
          gnina_args =
            [''--receptor'', ''receptors/'' @ receptor w @ ''.pdbqt'',
             ''--ligand'', ''ligands/'' @ ligand w @ ''.pdbqt'',
             ''--out'', output_sdf,
             ''--log'', log_file]
            @ [''--center_x'', str_float (center_x w),
               ''--center_y'', str_float (center_y w),
               ''--center_z'', str_float (center_z w),
               ''--size_x'', str_float (size_x w),
               ''--size_y'', str_float (size_y w),
               ''--size_z'', str_float (size_z w)]
            @ get_gnina_command_base str_int str_float cfg
            @ (case flexible_residues of
                 None \<Rightarrow> []
               | Some [] \<Rightarrow> []
               | Some (x # xs) \<Rightarrow>
                   [''--flexres'', py_join '','' (x # xs),
                    ''--flexdist'', ''3.5'',
                    ''--out_flex'', ''gnina_out/'' @ tag @ ''_flex.pdbqt''])
      in (get_apptainer_command cfg gnina_args, output_sdf, log_file))"

text \<open>The artifact path of a work item, as \<^verbatim>\<open>build_gnina_command\<close> derives it.\<close>

definition artifact_path :: "row \<Rightarrow> string" where
  "artifact_path w = ''gnina_out/'' @ tag_of w @ ''_poses.sdf''"

definition example_row :: "string \<Rightarrow> string \<Rightarrow> string \<Rightarrow> row" where
  "example_row r s l =
     \<lparr>receptor = r, ligand = l, site_id = s, center_x = 0, center_y = 0, center_z = 0,
      size_x = 20, size_y = 20, size_z = 20\<rparr>"

section \<open>Docking results\<close>

datatype status = Success | Error | Timeout

text \<open>The result dictionary of \<^verbatim>\<open>run_single_docking\<close>; a key that only some of the three
  dictionary literals carry is an \<open>option\<close> field.\<close>

record docking_result =
  status :: status
  r_receptor :: string
  r_ligand :: string
  r_site_id :: string
  output_file :: "string option"
  log_file :: "string option"
  scores :: "pose list option"
  command :: "string option"
  error :: "string option"
  returncode :: "int option"
  pair_id :: string
  batch_idx :: "nat option"

text \<open>The outcome of \<^verbatim>\<open>subprocess.run(cmd, capture_output=True, text=True, timeout=t)\<close>:
  the process exits with a return code and a standard error text, the timeout expires,
  or another exception is raised (its text is kept).\<close>

datatype proc_outcome = Completed int string | TimeoutExpired | Failed string

text \<open>The dictionary written to the ledger file by \<^verbatim>\<open>save_docking_state\<close>, and what
  \<^verbatim>\<open>load_docking_state\<close> takes from a parsed ledger file (\<^verbatim>\<open>state.get\<close> of two keys
  that may be absent).\<close>

record saved_state =
  timestamp :: string
  saved_total_pairs :: nat
  saved_completed_pairs :: "string list"
  results_count :: nat
  saved_config :: config

record loaded_state =
  loaded_completed_pairs :: "string list option"
  loaded_total_pairs :: "nat option"

text \<open>The parameters of the engine: Python builtins, the clock, the iteration order of a
  set, the JSON encoder (the chunks \<^verbatim>\<open>json.dump\<close> writes, and whether it finishes without
  raising), the JSON decoder followed by the two \<^verbatim>\<open>state.get\<close> calls (an exception when
  one of them raises), and the external tool.\<close>

record env =
  py_float :: "string \<Rightarrow> rat option"
  str_int :: "int \<Rightarrow> string"
  str_float :: "rat \<Rightarrow> string"
  now_isoformat :: string
  list_of_set :: "string set \<Rightarrow> string list"
  json_dump :: "saved_state \<Rightarrow> string list \<times> bool"
  json_load :: "string \<Rightarrow> py_exception + loaded_state"
  subprocess_run :: "string list \<Rightarrow> int \<Rightarrow> filesystem \<Rightarrow> proc_outcome \<times> filesystem"

text \<open>\<^verbatim>\<open>run_single_docking\<close> on a row, with the completed set and the file system as they
  are when the row is looked at. It returns the result (\<open>None\<close> for a skipped row), the
  file system afterwards, and the command handed to \<^verbatim>\<open>subprocess.run\<close> if one was.\<close>

definition run_single_docking ::
  "env \<Rightarrow> config \<Rightarrow> string set \<Rightarrow> filesystem \<Rightarrow> row \<Rightarrow> string list option
     \<Rightarrow> docking_result option \<times> filesystem \<times> string list option" where
  "run_single_docking ev cfg completed fs w flexible_residues =
     (let pid = tag_of w in
      if pid \<in> completed then (None, fs, None)
      else
        (let (cmd, output_sdf, logf) =
               build_gnina_command (str_int ev) (str_float ev) cfg w flexible_residues
         in case subprocess_run ev cmd (timeout cfg) fs of
              (Completed rc err, fs') \<Rightarrow>
                if rc = 0 \<and> path_exists fs' output_sdf then
                  (Some \<lparr>status = Success, r_receptor = receptor w, r_ligand = ligand w,
                         r_site_id = site_id w, output_file = Some output_sdf,
                         log_file = Some logf,
                         scores = Some (parse_gnina_output (py_float ev) fs' output_sdf logf),
                         command = Some (py_join '' '' cmd), error = None, returncode = None,
                         pair_id = pid, batch_idx = None\<rparr>, fs', Some cmd)
                else
                  (Some \<lparr>status = Error, r_receptor = receptor w, r_ligand = ligand w,
                         r_site_id = site_id w, output_file = None, log_file = None,
                         scores = None, command = None, error = Some err,
                         returncode = Some rc, pair_id = pid, batch_idx = None\<rparr>, fs', Some cmd)
            | (TimeoutExpired, fs') \<Rightarrow>
                (Some \<lparr>status = Timeout, r_receptor = receptor w, r_ligand = ligand w,
                       r_site_id = site_id w, output_file = None, log_file = None,
                       scores = None, command = None,
                       error = Some (''Timeout after '' @ str_int ev (timeout cfg) @ ''s''),
                       returncode = None, pair_id = pid, batch_idx = None\<rparr>, fs', Some cmd)
            | (Failed msg, fs') \<Rightarrow>
                (Some \<lparr>status = Error, r_receptor = receptor w, r_ligand = ligand w,
                       r_site_id = site_id w, output_file = None, log_file = None,
                       scores = None, command = None, error = Some msg,
                       returncode = None, pair_id = pid, batch_idx = None\<rparr>, fs', Some cmd)))"

section \<open>Completion ledger\<close>

text \<open>The attributes of \<^verbatim>\<open>GNINADockingEngine\<close> that the run reads and writes.\<close>

record engine =
  config :: config
  max_workers :: int
  completed_pairs :: "string set"
  total_pairs :: nat

definition state_file :: string where
  "state_file = ''results/docking_state.json''"

text \<open>\<^verbatim>\<open>save_docking_state\<close> as the file operations it performs: \<^verbatim>\<open>open(state_file, 'w')\<close>
  truncates the file, then \<^verbatim>\<open>json.dump\<close> writes its chunks one after the other. A crash
  after \<open>k\<close> operations leaves the file system \<open>crash_during_save\<close> computes.\<close>

datatype fs_op = Open_w string | Write string string

fun apply_op :: "filesystem \<Rightarrow> fs_op \<Rightarrow> filesystem" where
  "apply_op fs (Open_w p) = write_text fs p []"
| "apply_op fs (Write p c) =
     write_text fs p ((case read_text fs p of Inr old \<Rightarrow> old | Inl e \<Rightarrow> []) @ c)"

definition docking_state :: "env \<Rightarrow> config \<Rightarrow> nat \<Rightarrow> string set \<Rightarrow> docking_result list
    \<Rightarrow> saved_state" where
  "docking_state ev cfg n_total completed results =
     \<lparr>timestamp = now_isoformat ev, saved_total_pairs = n_total,
      saved_completed_pairs = list_of_set ev completed,
      results_count = length results, saved_config = cfg\<rparr>"

definition save_ops :: "env \<Rightarrow> saved_state \<Rightarrow> fs_op list" where
  "save_ops ev st = Open_w state_file # map (Write state_file) (fst (json_dump ev st))"

definition crash_during_save :: "env \<Rightarrow> saved_state \<Rightarrow> nat \<Rightarrow> filesystem \<Rightarrow> filesystem" where
  "crash_during_save ev st k fs = foldl apply_op fs (take k (save_ops ev st))"

text \<open>The whole of \<^verbatim>\<open>save_docking_state\<close>: the file system afterwards, and whether it
  returned without an exception of the encoder.\<close>

definition save_docking_state ::
  "env \<Rightarrow> config \<Rightarrow> nat \<Rightarrow> string set \<Rightarrow> docking_result list \<Rightarrow> filesystem
     \<Rightarrow> filesystem \<times> bool" where
  "save_docking_state ev cfg n_total completed results fs =
     (let st = docking_state ev cfg n_total completed results
      in (foldl apply_op fs (save_ops ev st), snd (json_dump ev st)))"

definition load_docking_state ::
  "env \<Rightarrow> filesystem \<Rightarrow> engine \<Rightarrow> py_exception + engine \<times> bool" where
  "load_docking_state ev fs eng =
     (if path_exists fs state_file then
        (case read_text fs state_file of
           Inl e \<Rightarrow> Inl e
         | Inr content \<Rightarrow>
             (case json_load ev content of
                Inl e \<Rightarrow> Inl e
              | Inr st \<Rightarrow>
                  Inr (eng\<lparr>completed_pairs :=
                             set (case loaded_completed_pairs st of None \<Rightarrow> [] | Some ks \<Rightarrow> ks),
                           total_pairs :=
                             (case loaded_total_pairs st of None \<Rightarrow> 0 | Some t \<Rightarrow> t)\<rparr>,
                       True)))
      else Inr (eng, False))"

text \<open>\<^verbatim>\<open>load_completed_pairs\<close>: every file of \<^verbatim>\<open>gnina_out\<close> whose name ends in
  \<^verbatim>\<open>_poses.sdf\<close> adds its name, with every occurrence of \<^verbatim>\<open>_poses.sdf\<close> removed, to the
  completed set.\<close>

definition scan_file :: "string set \<Rightarrow> string \<Rightarrow> string set" where
  "scan_file completed file =
     (if suffix ''_poses.sdf'' file then insert (py_replace ''_poses.sdf'' [] file) completed
      else completed)"

definition load_completed_pairs :: "filesystem \<Rightarrow> engine \<Rightarrow> py_exception + engine" where
  "load_completed_pairs fs eng =
     (if path_exists fs ''gnina_out'' then
        (case listdir fs ''gnina_out'' of
           Inl e \<Rightarrow> Inl e
         | Inr files \<Rightarrow> Inr (eng\<lparr>completed_pairs := foldl scan_file (completed_pairs eng) files\<rparr>))
      else Inr eng)"

section \<open>Batch scheduler\<close>

text \<open>\<^verbatim>\<open>[pairlist_df.iloc[i:i+batch_size] for i in range(0, total_pairs, batch_size)]\<close>:
  \<^verbatim>\<open>range\<close> raises for a zero step and is empty for a negative one.\<close>

definition make_batches :: "row list \<Rightarrow> int \<Rightarrow> py_exception + row list list" where
  "make_batches pairlist_df batch_size =
     (if batch_size = 0 then Inl ValueError
      else if batch_size < 0 then Inr []
      else Inr (map (\<lambda>k. take (nat batch_size) (drop (k * nat batch_size) pairlist_df))
                  [0 ..< (length pairlist_df + nat batch_size - 1) div nat batch_size]))"

text \<open>The state of a run: the engine, the file system, and for every batch the rows its
  worker has still to look at and the results it has so far; the batches the main thread
  has collected, in the order of collection; its accumulators; and the log of the child
  processes launched, each with the row it was launched for.\<close>

record run_state = engine +
  disk :: filesystem
  pending :: "nat \<Rightarrow> row list"
  batch_results :: "nat \<Rightarrow> docking_result list"
  collected :: "nat list"
  all_results :: "docking_result list"
  successful :: nat
  failed :: nat
  invoked :: "(row \<times> string list) list"

text \<open>The run is a sequence of events. \<open>Work b\<close>: the worker of batch \<open>b\<close> runs one
  iteration of the loop of \<^verbatim>\<open>_process_batch\<close>. \<open>Collect b\<close>: the main thread takes the
  finished batch \<open>b\<close> from \<^verbatim>\<open>as_completed\<close> and runs the body of its loop. The pool
  starts the batches in submission order and runs at most \<open>max_workers\<close> of them at a
  time.\<close>

datatype event = Work nat | Collect nat

definition work_enabled :: "row list list \<Rightarrow> run_state \<Rightarrow> nat \<Rightarrow> bool" where
  "work_enabled batches s b \<longleftrightarrow>
     b < length batches \<and> pending s b \<noteq> [] \<and>
     int (length (filter (\<lambda>i. pending s i \<noteq> []) [0 ..< b])) < max_workers s"

definition collect_enabled :: "row list list \<Rightarrow> run_state \<Rightarrow> nat \<Rightarrow> bool" where
  "collect_enabled batches s b \<longleftrightarrow>
     b < length batches \<and> pending s b = [] \<and> b \<notin> set (collected s)"

text \<open>One iteration of \<^verbatim>\<open>_process_batch\<close> on row \<open>w\<close> of batch \<open>b\<close>. The dictionary of
  flexible residues is a map; \<^verbatim>\<open>None\<close> and the empty dictionary are the empty map.\<close>

definition process_row ::
  "env \<Rightarrow> (string \<Rightarrow> string list option) \<Rightarrow> nat \<Rightarrow> run_state \<Rightarrow> row \<Rightarrow> run_state" where
  "process_row ev flexible_residues_dict b s w =
     (case run_single_docking ev (config s) (completed_pairs s) (disk s) w
             (flexible_residues_dict (receptor w)) of
        (res, fs', cmd) \<Rightarrow>
          s\<lparr>disk := fs',
            batch_results := (batch_results s)
              (b := batch_results s b @
                 (case res of None \<Rightarrow> [] | Some r \<Rightarrow> [r\<lparr>batch_idx := Some b\<rparr>])),
            invoked := invoked s @ (case cmd of None \<Rightarrow> [] | Some c \<Rightarrow> [(w, c)])\<rparr>)"

text \<open>The body of the loop over \<^verbatim>\<open>as_completed\<close> for batch \<open>b\<close>. An exception of
  \<^verbatim>\<open>save_docking_state\<close> is caught and counted as a failed batch.\<close>

definition count_result :: "run_state \<Rightarrow> docking_result \<Rightarrow> run_state" where
  "count_result s r =
     (if status r = Success
      then s\<lparr>successful := successful s + 1,
             completed_pairs := insert (pair_id r) (completed_pairs s)\<rparr>
      else s\<lparr>failed := failed s + 1\<rparr>)"

definition collect_batch :: "env \<Rightarrow> row list list \<Rightarrow> nat \<Rightarrow> run_state \<Rightarrow> run_state" where
  "collect_batch ev batches b s =
     (let s1 = foldl count_result (s\<lparr>all_results := all_results s @ batch_results s b\<rparr>)
                 (batch_results s b)
      in case save_docking_state ev (config s1) (total_pairs s1) (completed_pairs s1)
                (all_results s1) (disk s1) of
           (fs', ok) \<Rightarrow>
             s1\<lparr>disk := fs',
                failed := (if ok then failed s1 else failed s1 + length (batches ! b)),
                collected := collected s1 @ [b]\<rparr>)"

definition step ::
  "env \<Rightarrow> (string \<Rightarrow> string list option) \<Rightarrow> row list list \<Rightarrow> run_state \<Rightarrow> event
     \<Rightarrow> run_state" where
  "step ev flexible_residues_dict batches s e =
     (case e of
        Work b \<Rightarrow>
          if work_enabled batches s b
          then process_row ev flexible_residues_dict b
                 (s\<lparr>pending := (pending s)(b := tl (pending s b))\<rparr>) (hd (pending s b))
          else s
      | Collect b \<Rightarrow>
          if collect_enabled batches s b then collect_batch ev batches b s else s)"

text \<open>Every list of events is a schedule: an event that cannot happen is skipped, and
  after the list the remaining work is done batch by batch.\<close>

definition drain_schedule :: "row list list \<Rightarrow> event list" where
  "drain_schedule batches =
     concat (map (\<lambda>b. replicate (length (batches ! b)) (Work b) @ [Collect b])
               [0 ..< length batches])"

definition initial_state :: "engine \<Rightarrow> filesystem \<Rightarrow> row list list \<Rightarrow> run_state" where
  "initial_state eng fs batches =
     \<lparr>config = config eng, max_workers = max_workers eng,
      completed_pairs = completed_pairs eng, total_pairs = total_pairs eng,
      disk = fs, pending = (\<lambda>b. if b < length batches then batches ! b else []),
      batch_results = (\<lambda>b. []), collected = [], all_results = [], successful = 0,
      failed = 0, invoked = []\<rparr>"

text \<open>\<^verbatim>\<open>run_parallel_docking\<close>. The returned list is \<open>all_results\<close> of the final state;
  the final state also holds the engine's ledger and the file system. The exceptions are
  those of \<^verbatim>\<open>os.listdir\<close>, of \<^verbatim>\<open>range\<close> with a zero step, of
  \<^verbatim>\<open>ThreadPoolExecutor\<close> with a non-positive width, and of the division by
  \<^verbatim>\<open>total_pairs\<close> in the summary.\<close>

definition run_parallel_docking ::
  "env \<Rightarrow> event list \<Rightarrow> engine \<Rightarrow> filesystem \<Rightarrow> row list
     \<Rightarrow> (string \<Rightarrow> string list option) \<Rightarrow> int \<Rightarrow> py_exception + run_state" where
  "run_parallel_docking ev schedule eng fs pairlist_df flexible_residues_dict batch_size =
     (case load_completed_pairs fs (eng\<lparr>total_pairs := length pairlist_df\<rparr>) of
        Inl e \<Rightarrow> Inl e
      | Inr eng' \<Rightarrow>
          (case make_batches pairlist_df batch_size of
             Inl e \<Rightarrow> Inl e
           | Inr batches \<Rightarrow>
               if max_workers eng' \<le> 0 then Inl ValueError
               else
                 (let s = foldl (step ev flexible_residues_dict batches)
                            (initial_state eng' fs batches)
                            (schedule @ drain_schedule batches)
                  in if total_pairs s = 0 then Inl ZeroDivisionError else Inr s)))"

section \<open>Funnel controller\<close>

record stage_config =
  stage_name :: string
  stage_cnn_scoring :: string
  stage_exhaustiveness :: int
  stage_num_modes :: int
  description :: string
  cnn_score_threshold :: rat
  max_ligands_per_receptor :: "int option"
  top_percentage :: "rat option"
  use_case :: string

text \<open>The table \<^verbatim>\<open>self.stages\<close> of \<^verbatim>\<open>TieredCNNWorkflow.__init__\<close>.\<close>

definition stages :: "string \<Rightarrow> stage_config option" where
  "stages =
     [''A'' \<mapsto> \<lparr>stage_name = ''Broad Screening'', stage_cnn_scoring = ''rescore'',
               stage_exhaustiveness = 12, stage_num_modes = 8,
               description = ''Fast broad screening with CNN rescoring'',
               cnn_score_threshold = 5 / 10, max_ligands_per_receptor = None,
               top_percentage = None,
               use_case = ''Large library screening, first-pass ranking''\<rparr>,
      ''B'' \<mapsto> \<lparr>stage_name = ''Focused Refinement'', stage_cnn_scoring = ''refinement'',
               stage_exhaustiveness = 24, stage_num_modes = 15,
               description = ''Balanced refinement with CNN pose optimization'',
               cnn_score_threshold = 7 / 10, max_ligands_per_receptor = Some 5,
               top_percentage = Some (5 / 100),
               use_case = ''Focused re-docking, pose refinement''\<rparr>,
      ''C'' \<mapsto> \<lparr>stage_name = ''High-Accuracy Validation'', stage_cnn_scoring = ''all'',
               stage_exhaustiveness = 48, stage_num_modes = 20,
               description = ''High-accuracy final screening with full CNN'',
               cnn_score_threshold = 8 / 10, max_ligands_per_receptor = Some 2,
               top_percentage = Some (1 / 100),
               use_case = ''Final validation, small high-value sets''\<rparr>]"

definition get_stage_config ::
  "(string \<Rightarrow> stage_config option) \<Rightarrow> string \<Rightarrow> py_exception + stage_config" where
  "get_stage_config tbl stage = (case tbl stage of None \<Rightarrow> Inl ValueError | Some c \<Rightarrow> Inr c)"

text \<open>A row of \<^verbatim>\<open>results_df\<close>: one per pose of a successful result.\<close>

record score_row =
  df_receptor :: string
  df_ligand :: string
  df_site_id :: string
  df_cnn_score :: rat

text \<open>The rows one result contributes (the body of the loop over
  \<^verbatim>\<open>previous_results\<close>), and their collection \<^verbatim>\<open>successful_results\<close>.\<close>

definition result_rows :: "docking_result \<Rightarrow> score_row list" where
  "result_rows res =
     (if status res = Success then
        (case scores res of
           None \<Rightarrow> []
         | Some ps \<Rightarrow>
             map (\<lambda>score_data.
                \<lparr>df_receptor = r_receptor res, df_ligand = r_ligand res,
                 df_site_id = r_site_id res, df_cnn_score = cnn_score score_data\<rparr>) ps)
      else [])"

definition successful_scores :: "docking_result list \<Rightarrow> score_row list" where
  "successful_scores previous_results = concat (map result_rows previous_results)"

text \<open>\<^verbatim>\<open>Series.max()\<close> of a non-empty series; the filter applies it to non-empty
  selections only.\<close>

fun series_max :: "rat list \<Rightarrow> rat" where
  "series_max [] = 0"
| "series_max (x # xs) = fold max xs x"

text \<open>\<^verbatim>\<open>Series.quantile(q)\<close> with the default linear interpolation: \<^verbatim>\<open>ValueError\<close> for
  \<open>q\<close> outside \<open>[0, 1]\<close>, NaN (\<open>None\<close>) on the empty series, and otherwise the value at
  position \<open>q * (n - 1)\<close> of the sorted values, interpolated between its neighbours.\<close>

definition linear_quantile :: "rat list \<Rightarrow> rat \<Rightarrow> rat" where
  "linear_quantile xs q =
     (let sorted_xs = sort xs;
          pos = q * of_nat (length xs - 1);
          lo = nat \<lfloor>pos\<rfloor>;
          hi = min (lo + 1) (length xs - 1);
          frac = pos - of_nat lo
      in sorted_xs ! lo + (sorted_xs ! hi - sorted_xs ! lo) * frac)"

definition series_quantile :: "rat list \<Rightarrow> rat \<Rightarrow> py_exception + rat option" where
  "series_quantile xs q =
     (if q < 0 \<or> 1 < q then Inl ValueError
      else if xs = [] then Inr None
      else Inr (Some (linear_quantile xs q)))"

text \<open>\<^verbatim>\<open>df.groupby('ligand')['cnn_score'].max()\<close>: one entry per ligand, in the sorted
  order of the ligand names. \<^verbatim>\<open>nlargest(n).index\<close>: the first \<open>n\<close> labels of the stable
  sort by descending value, none for \<open>n \<le> 0\<close>.\<close>

definition groupby_ligand_max :: "score_row list \<Rightarrow> (string \<times> rat) list" where
  "groupby_ligand_max rows =
     map (\<lambda>l. (l, series_max (map df_cnn_score (filter (\<lambda>s. df_ligand s = l) rows))))
       (sort (remdups (map df_ligand rows)))"

definition nlargest_index :: "int \<Rightarrow> (string \<times> rat) list \<Rightarrow> string list" where
  "nlargest_index n series = map fst (take (nat n) (sort_key (\<lambda>(l, v). - v) series))"

text \<open>The two selections of \<^verbatim>\<open>results_df\<close> in the loop: the rows of the pair, and the rows
  of the receptor (\<^verbatim>\<open>results_df[results_df['receptor'] == receptor]\<close>).\<close>

definition pair_scores :: "score_row list \<Rightarrow> row \<Rightarrow> score_row list" where
  "pair_scores results_df w =
     filter (\<lambda>s. df_receptor s = receptor w \<and> df_ligand s = ligand w \<and>
                 df_site_id s = site_id w) results_df"

definition receptor_rows :: "score_row list \<Rightarrow> string \<Rightarrow> score_row list" where
  "receptor_rows results_df rcp = filter (\<lambda>s. df_receptor s = rcp) results_df"

text \<open>The body of the loop over \<^verbatim>\<open>pairlist_df.iterrows()\<close>: whether the row is appended
  to \<^verbatim>\<open>filtered_pairs\<close>. A comparison with NaN is false.\<close>

definition keep_row :: "stage_config \<Rightarrow> score_row list \<Rightarrow> row \<Rightarrow> py_exception + bool" where
  "keep_row stage_config results_df w =
     (if length (pair_scores results_df w) = 0 then Inr False
      else
        (let max_cnn_score = series_max (map df_cnn_score (pair_scores results_df w))
         in if max_cnn_score < cnn_score_threshold stage_config then Inr False
         else
           (case (case top_percentage stage_config of
                    None \<Rightarrow> Inr True
                  | Some tp \<Rightarrow>
                      (case series_quantile
                              (map df_cnn_score (receptor_rows results_df (receptor w))) (1 - tp) of
                         Inl e \<Rightarrow> Inl e
                       | Inr None \<Rightarrow> Inr True
                       | Inr (Some threshold_score) \<Rightarrow> Inr (\<not> max_cnn_score < threshold_score)))
            of Inl e \<Rightarrow> Inl e
             | Inr False \<Rightarrow> Inr False
             | Inr True \<Rightarrow>
                 (case max_ligands_per_receptor stage_config of
                    None \<Rightarrow> Inr True
                  | Some n \<Rightarrow>
                      if int (length (remdups (map df_ligand (receptor_rows results_df (receptor w)))))
                           > n
                      then Inr (ligand w \<in> set (nlargest_index n
                                  (groupby_ligand_max (receptor_rows results_df (receptor w)))))
                      else Inr True))))"

fun filter_rows :: "stage_config \<Rightarrow> score_row list \<Rightarrow> row list \<Rightarrow> py_exception + row list" where
  "filter_rows stage_config results_df [] = Inr []"
| "filter_rows stage_config results_df (w # ws) =
     (case keep_row stage_config results_df w of
        Inl e \<Rightarrow> Inl e
      | Inr k \<Rightarrow>
          (case filter_rows stage_config results_df ws of
             Inl e \<Rightarrow> Inl e
           | Inr filtered_pairs \<Rightarrow> Inr (if k then w # filtered_pairs else filtered_pairs)))"

text \<open>\<^verbatim>\<open>filter_ligands_for_stage\<close>; \<open>previous_results\<close> is \<open>None\<close> or a list, both \<^verbatim>\<open>None\<close>
  and the empty list being falsy.\<close>

definition filter_ligands_for_stage ::
  "(string \<Rightarrow> stage_config option) \<Rightarrow> string \<Rightarrow> docking_result list option \<Rightarrow> row list
     \<Rightarrow> py_exception + row list" where
  "filter_ligands_for_stage tbl stage previous_results pairlist_df =
     (case get_stage_config tbl stage of
        Inl e \<Rightarrow> Inl e
      | Inr stage_config \<Rightarrow>
          if stage = ''A'' then Inr pairlist_df
          else
            (case previous_results of
               None \<Rightarrow> Inr pairlist_df
             | Some [] \<Rightarrow> Inr pairlist_df
             | Some (p # ps) \<Rightarrow>
                 (let successful_results = successful_scores (p # ps)
                  in if successful_results = [] then Inr pairlist_df
                  else filter_rows stage_config successful_results pairlist_df)))"

section \<open>Invariants of a run\<close>

text \<open>The keys the startup scan contributes.\<close>

definition scan_keys :: "filesystem \<Rightarrow> string set" where
  "scan_keys fs =
     (if path_exists fs ''gnina_out'' then
        (case listdir fs ''gnina_out'' of
           Inl e \<Rightarrow> {}
         | Inr files \<Rightarrow>
             (\<lambda>file. py_replace ''_poses.sdf'' [] file) `
               {file \<in> set files. suffix ''_poses.sdf'' file})
      else {})"

text \<open>For a run that starts with the completed set \<open>L\<close>: the rows a worker has still to
  look at are a suffix of its batch, a collected batch is finished and collected once,
  the results are those of the collected batches in the order of collection, and the
  completed set is \<open>L\<close> and the keys of the successful results.\<close>

definition ledger_inv :: "string set \<Rightarrow> row list list \<Rightarrow> run_state \<Rightarrow> bool" where
  "ledger_inv L batches s \<longleftrightarrow>
     (\<forall>b < length batches. suffix (pending s b) (batches ! b)) \<and>
     distinct (collected s) \<and>
     (\<forall>b \<in> set (collected s). b < length batches \<and> pending s b = []) \<and>
     all_results s = concat (map (batch_results s) (collected s)) \<and>
     completed_pairs s = L \<union> pair_id ` {r \<in> set (all_results s). status r = Success}"

text \<open>When the tags of the catalog are distinct: the results of a batch are those of its
  rows looked at so far whose tag is not in \<open>L\<close>, in the order of the rows, and the child
  processes launched so far are one for each such row.\<close>

definition dispatch_inv :: "string set \<Rightarrow> row list list \<Rightarrow> run_state \<Rightarrow> bool" where
  "dispatch_inv L batches s \<longleftrightarrow>
     (\<forall>b < length batches.
        map pair_id (batch_results s b) @
          map tag_of (filter (\<lambda>w. tag_of w \<notin> L) (pending s b)) =
        map tag_of (filter (\<lambda>w. tag_of w \<notin> L) (batches ! b))) \<and>
     mset (map fst (invoked s)) +
       mset (filter (\<lambda>w. tag_of w \<notin> L) (concat (map (pending s) [0 ..< length batches]))) =
     mset (filter (\<lambda>w. tag_of w \<notin> L) (concat batches))"

text \<open>The batches below \<open>k\<close> are finished and collected.\<close>

definition finished_upto :: "nat \<Rightarrow> run_state \<Rightarrow> bool" where
  "finished_upto k s \<longleftrightarrow> (\<forall>b < k. pending s b = [] \<and> b \<in> set (collected s))"

text \<open>The notions of the specification: a work item has a successful, scored prior result;
  its best score; the best score of a ligand within the rows of a receptor.\<close>

definition has_scored_success :: "docking_result list \<Rightarrow> row \<Rightarrow> bool" where
  "has_scored_success previous_results w =
     list_ex (\<lambda>res. status res = Success \<and> r_receptor res = receptor w \<and>
                r_ligand res = ligand w \<and> r_site_id res = site_id w \<and>
                (case scores res of None \<Rightarrow> False | Some ps \<Rightarrow> ps \<noteq> [])) previous_results"

definition best_score :: "score_row list \<Rightarrow> row \<Rightarrow> rat" where
  "best_score results_df w = series_max (map df_cnn_score (pair_scores results_df w))"


definition top_percentage_valid :: "stage_config \<Rightarrow> bool" where
  "top_percentage_valid c =
     (case top_percentage c of None \<Rightarrow> True | Some tp \<Rightarrow> 0 \<le> tp \<and> tp \<le> 1)"

text \<open>The decision of the loop body in the words of the specification: the item has a
  score, passes the score threshold, the top-percentage criterion and the per-receptor
  cap.\<close>

definition survives :: "stage_config \<Rightarrow> score_row list \<Rightarrow> row \<Rightarrow> bool" where
  "survives c df w \<longleftrightarrow>
     pair_scores df w \<noteq> [] \<and>
     cnn_score_threshold c \<le> best_score df w \<and>
     (case top_percentage c of None \<Rightarrow> True
      | Some tp \<Rightarrow>
          linear_quantile (map df_cnn_score (receptor_rows df (receptor w))) (1 - tp)
            \<le> best_score df w) \<and>
     (case max_ligands_per_receptor c of None \<Rightarrow> True
      | Some n \<Rightarrow>
          int (length (remdups (map df_ligand (receptor_rows df (receptor w))))) \<le> n \<or>
          ligand w \<in> set (nlargest_index n (groupby_ligand_max (receptor_rows df (receptor w)))))"



definition the_results :: "docking_result list option \<Rightarrow> docking_result list" where
  "the_results previous_results = (case previous_results of None \<Rightarrow> [] | Some ps \<Rightarrow> ps)"

text \<open>Results and stage tables for the examples.\<close>

definition success_result :: "row \<Rightarrow> rat list \<Rightarrow> docking_result" where
  "success_result w vs =
     \<lparr>status = Success, r_receptor = receptor w, r_ligand = ligand w, r_site_id = site_id w,
      output_file = Some (artifact_path w), log_file = Some (''logs/'' @ tag_of w @ ''.log''),
      scores = Some (number_poses 0 vs), command = Some [], error = None, returncode = None,
      pair_id = tag_of w, batch_idx = Some 0\<rparr>"

definition error_result :: "row \<Rightarrow> docking_result" where
  "error_result w =
     \<lparr>status = Error, r_receptor = receptor w, r_ligand = ligand w, r_site_id = site_id w,
      output_file = None, log_file = None, scores = None, command = None,
      error = Some ''exit status 1'', returncode = Some 1, pair_id = tag_of w,
      batch_idx = Some 0\<rparr>"

definition lig :: "string \<Rightarrow> row" where
  "lig l = example_row ''R'' ''site_1'' l"






text \<open>An environment for the examples. The tool of \<open>example_env ok\<close> writes an artifact
  with one score line to the path after \<^verbatim>\<open>--out\<close> and exits with status 0 if \<open>ok\<close> and
  with status 1 otherwise. The encoder writes the completed keys only, in four chunks;
  the decoder knows the ledger with the one key \<^verbatim>\<open>R_site_1_a\<close> and raises on any other
  text.\<close>

definition default_config :: config where
  "default_config =
     \<lparr>exhaustiveness = 32, num_modes = 20, seed = 42, cnn_scoring = ''rescore'',
      cnn_rotation = 0, min_rmsd_filter = 1, pose_sort_order = 0, use_gpu = False,
      base_use_gpu = False, gpu_device = 0, cpu_cores = 4, add_hydrogens = True,
      strip_hydrogens = False, timeout = 300, use_apptainer = True, use_gpu_flag = ''--nv'',
      apptainer_image = ''$HOME/cuda12.3.2-cudnn9-runtime-ubuntu22.04.sif'',
      gnina_binary = ''$HOME/gnina''\<rparr>"

fun decimal_digits :: "nat \<Rightarrow> nat \<Rightarrow> string" where
  "decimal_digits 0 n = []"
| "decimal_digits (Suc k) n =
     (if n < 10 then [char_of (48 + n)]
      else decimal_digits k (n div 10) @ [char_of (48 + n mod 10)])"

definition show_int :: "int \<Rightarrow> string" where
  "show_int i = (if i < 0 then ''-'' else []) @ decimal_digits (Suc (nat \<bar>i\<bar>)) (nat \<bar>i\<bar>)"

definition show_float :: "rat \<Rightarrow> string" where
  "show_float x = show_int \<lfloor>x\<rfloor> @ ''.'' @ show_int \<lfloor>(x - of_int \<lfloor>x\<rfloor>) * 10\<rfloor>"

fun arg_after :: "string \<Rightarrow> string list \<Rightarrow> string" where
  "arg_after k [] = []"
| "arg_after k [x] = []"
| "arg_after k (x # y # ys) = (if x = k then y else arg_after k (y # ys))"

definition example_env :: "bool \<Rightarrow> env" where
  "example_env ok =
     \<lparr>py_float = decimal_float, str_int = show_int, str_float = show_float,
      now_isoformat = ''2025-01-01T00:00:00'',
      list_of_set = sorted_list_of_set,
      json_dump = (\<lambda>st. ([''{'', ''\"completed_pairs\": ['',
                            py_join '', '' (map (\<lambda>k. ''\"'' @ k @ ''\"'') (saved_completed_pairs st)),
                            '']}''], True)),
      json_load = (\<lambda>c. if c = ''{\"completed_pairs\": [\"R_site_1_a\"]}''
                         then Inr \<lparr>loaded_completed_pairs = Some [''R_site_1_a''],
                                   loaded_total_pairs = None\<rparr>
                         else Inl ValueError),
      subprocess_run = (\<lambda>cmd t fs.
         (Completed (if ok then 0 else 1) (if ok then [] else ''failed''),
          write_text fs (arg_after ''--out'' cmd) ''CNNscore 0.9''))\<rparr>"

definition fresh_engine :: engine where
  "fresh_engine = \<lparr>config = default_config, max_workers = 4, completed_pairs = {},
     total_pairs = 0\<rparr>"

definition empty_dirs :: filesystem where
  "empty_dirs = [(''gnina_out'', Directory), (''logs'', Directory), (''results'', Directory)]"

definition one_done :: filesystem where
  "one_done = (''gnina_out/R_site_1_b_poses.sdf'', File ''CNNscore 0.9'') # empty_dirs"

definition three_ligands :: "row list" where
  "three_ligands = [lig ''a'', lig ''b'', lig ''c'']"

definition ledger_only :: filesystem where
  "ledger_only = (state_file, File ''{\"completed_pairs\": [\"R_site_1_a\"]}'') # empty_dirs"

definition old_ledger :: saved_state where
  "old_ledger = docking_state (example_env True) default_config 2 {''R_site_1_a''} []"

definition new_ledger :: saved_state where
  "new_ledger = docking_state (example_env True) default_config 2
     {''R_site_1_a'', ''R_site_1_b''} []"

definition example_sdf :: string where
  "example_sdf = ''CNNscore 0.5'' @ [CHR 0x0A] @ ''junk'' @ [CHR 0x0A] @ ''> <CNNscore>'' @
     [CHR 0x0A] @ ''0.9'' @ [CHR 0x0A] @ ''> <minimizedCNNscore>  0.25 ''"

section \<open>Properties of the output parser\<close>

lemma scan_lines_spec:
  "scan_lines pf acc ls =
     acc @ number_poses (length acc) (List.map_filter (line_score pf) ls)"
proof (induction ls arbitrary: acc)
  case Nil
  show ?case by (simp add: number_poses_def map_filter_simps)
next
  case (Cons line rest)
  show ?case
  proof (cases "line_score pf line")
    case None
    then have "scan_lines pf acc (line # rest) = scan_lines pf acc rest"
      by (auto simp: line_score_def split: list.splits option.splits if_splits)
    with None Cons show ?thesis by (simp add: map_filter_simps)
  next
    case (Some v)
    then have "scan_lines pf acc (line # rest) =
        scan_lines pf (acc @ [\<lparr>pose_id = length acc + 1, cnn_score = v, cnn_affinity = v\<rparr>]) rest"
      by (auto simp: line_score_def split: list.splits option.splits if_splits)
    with Some Cons show ?thesis by (simp add: map_filter_simps number_poses_def)
  qed
qed

lemma parse_log_id: "parse_log fs logf acc = acc"
  by (simp add: parse_log_def split: sum.splits)

lemma pose_id_number_poses: "map pose_id (number_poses k vs) = [Suc k ..< Suc (k + length vs)]"
proof -
  have "map pose_id (number_poses k vs) = map (\<lambda>x. Suc (fst x)) (enumerate k vs)"
    by (simp add: number_poses_def case_prod_beta comp_def)
  also have "\<dots> = map Suc (map fst (enumerate k vs))" by (simp only: map_map comp_def)
  also have "\<dots> = map Suc [k ..< k + length vs]" by (simp only: map_fst_enumerate)
  also have "\<dots> = [Suc k ..< Suc (k + length vs)]" by (simp only: map_Suc_upt)
  finally show ?thesis .
qed

lemma length_number_poses: "length (number_poses k vs) = length vs"
  by (simp add: number_poses_def)

text \<open>
  C10. The output parser is a total function of the file system, the two paths and the
  float parser: it has no exceptional result. On an artifact that is missing, unreadable,
  empty or without a recognised line it returns the empty list. On a readable artifact it
  returns one pose per recognised line (a line that contains the tag and whose last token
  is numeric), in line order, with the token's value as score and as affinity and with
  pose ids 1, 2, 3, ...
\<close>

theorem parse_gnina_output_total:
  "parse_gnina_output pf fs output_sdf logf =
     (case map_of fs output_sdf of
        Some (File content) \<Rightarrow>
          number_poses 0 (List.map_filter (line_score pf) (split_lines content))
      | _ \<Rightarrow> [])
   \<and> (\<not> path_exists fs output_sdf \<longrightarrow> parse_gnina_output pf fs output_sdf logf = [])
   \<and> (read_text fs output_sdf = Inr [] \<longrightarrow> parse_gnina_output pf fs output_sdf logf = [])
   \<and> (\<forall>content. read_text fs output_sdf = Inr content \<and>
         (\<forall>line \<in> set (split_lines content). line_score pf line = None) \<longrightarrow>
         parse_gnina_output pf fs output_sdf logf = [])
   \<and> map pose_id (parse_gnina_output pf fs output_sdf logf) =
       [1 ..< Suc (length (parse_gnina_output pf fs output_sdf logf))]
   \<and> (\<forall>p \<in> set (parse_gnina_output pf fs output_sdf logf). cnn_affinity p = cnn_score p)"
proof -
  let ?r = "parse_gnina_output pf fs output_sdf logf"
  have eq: "?r = (case map_of fs output_sdf of
        Some (File content) \<Rightarrow>
          number_poses 0 (List.map_filter (line_score pf) (split_lines content))
      | _ \<Rightarrow> [])"
    by (simp add: parse_gnina_output_def parse_log_id path_exists_def read_text_def
        scan_lines_spec split: option.splits fentry.splits)
  have missing: "\<not> path_exists fs output_sdf \<longrightarrow> ?r = []"
    by (simp add: eq path_exists_def)
  have empty: "read_text fs output_sdf = Inr [] \<longrightarrow> ?r = []"
    by (auto simp: eq read_text_def split_lines_def line_score_def py_split_def
        number_poses_def map_filter_simps split: option.splits fentry.splits)
  have untagged: "\<forall>content. read_text fs output_sdf = Inr content \<and>
         (\<forall>line \<in> set (split_lines content). line_score pf line = None) \<longrightarrow> ?r = []"
  proof (intro allI impI)
    fix content
    assume a: "read_text fs output_sdf = Inr content \<and>
         (\<forall>line \<in> set (split_lines content). line_score pf line = None)"
    then have "List.map_filter (line_score pf) (split_lines content) = []"
      by (auto simp: map_filter_def filter_empty_conv)
    with a show "?r = []"
      by (auto simp: eq read_text_def number_poses_def split: option.splits fentry.splits)
  qed
  have ids: "map pose_id ?r = [1 ..< Suc (length ?r)]"
    by (simp add: eq pose_id_number_poses length_number_poses del: upt_Suc
        split: option.splits fentry.splits)
  have aff: "\<forall>p \<in> set ?r. cnn_affinity p = cnn_score p"
    by (auto simp: eq number_poses_def split: option.splits fentry.splits)
  from eq missing empty untagged ids aff show ?thesis by blast
qed

theorem parse_gnina_output_total_witness:
  "parse_gnina_output decimal_float [] ''gnina_out/r_s_l_poses.sdf'' ''logs/r_s_l.log'' = []
   \<and> parse_gnina_output decimal_float [(''o'', File [])] ''o'' ''l'' = []
   \<and> parse_gnina_output decimal_float [(''o'', File ''REMARK 0.7'')] ''o'' ''l'' = []
   \<and> parse_gnina_output decimal_float [(''o'', File example_sdf)] ''o'' ''l'' =
       [\<lparr>pose_id = 1, cnn_score = 1 / 2, cnn_affinity = 1 / 2\<rparr>,
        \<lparr>pose_id = 2, cnn_score = 1 / 4, cnn_affinity = 1 / 4\<rparr>]
   \<and> map pose_id (parse_gnina_output decimal_float [(''o'', File example_sdf)] ''o'' ''l'') =
       [1 ..< Suc (length (parse_gnina_output decimal_float [(''o'', File example_sdf)] ''o'' ''l''))]
   \<and> map cnn_affinity (parse_gnina_output decimal_float [(''o'', File example_sdf)] ''o'' ''l'') =
       map cnn_score (parse_gnina_output decimal_float [(''o'', File example_sdf)] ''o'' ''l'')"
proof -
  have ex: "parse_gnina_output decimal_float [(''o'', File example_sdf)] ''o'' ''l'' =
       [\<lparr>pose_id = 1, cnn_score = 1 / 2, cnn_affinity = 1 / 2\<rparr>,
        \<lparr>pose_id = 2, cnn_score = 1 / 4, cnn_affinity = 1 / 4\<rparr>]"
    by code_simp
  have m: "\<not> path_exists [] ''gnina_out/r_s_l_poses.sdf''"
    by (simp add: path_exists_def)
  have e: "read_text [(''o'', File [])] ''o'' = Inr []"
    by (simp add: read_text_def)
  have u: "read_text [(''o'', File ''REMARK 0.7'')] ''o'' = Inr ''REMARK 0.7'' \<and>
      (\<forall>line \<in> set (split_lines ''REMARK 0.7''). line_score decimal_float line = None)"
    by (simp add: read_text_def split_lines_def line_score_def sublist_code)
  have c1: "parse_gnina_output decimal_float [] ''gnina_out/r_s_l_poses.sdf'' ''logs/r_s_l.log'' = []"
    using parse_gnina_output_total [of decimal_float "[]" "''gnina_out/r_s_l_poses.sdf''"
        "''logs/r_s_l.log''"] m by blast
  have c2: "parse_gnina_output decimal_float [(''o'', File [])] ''o'' ''l'' = []"
    using parse_gnina_output_total [of decimal_float "[(''o'', File [])]" "''o''" "''l''"] e
    by blast
  have c3: "parse_gnina_output decimal_float [(''o'', File ''REMARK 0.7'')] ''o'' ''l'' = []"
    using parse_gnina_output_total [of decimal_float "[(''o'', File ''REMARK 0.7'')]" "''o''" "''l''"] u
    by blast
  have c4: "map pose_id (parse_gnina_output decimal_float [(''o'', File example_sdf)] ''o'' ''l'') =
       [1 ..< Suc (length (parse_gnina_output decimal_float [(''o'', File example_sdf)] ''o'' ''l''))]
     \<and> map cnn_affinity (parse_gnina_output decimal_float [(''o'', File example_sdf)] ''o'' ''l'') =
       map cnn_score (parse_gnina_output decimal_float [(''o'', File example_sdf)] ''o'' ''l'')"
    unfolding map_eq_conv
    using parse_gnina_output_total [of decimal_float "[(''o'', File example_sdf)]" "''o''" "''l''"]
    by blast
  from c1 c2 c3 ex c4 show ?thesis by blast
qed

section \<open>Properties of the artifact naming\<close>

lemma build_gnina_command_output:
  "fst (snd (build_gnina_command si sf cfg w flexible_residues)) = artifact_path w"
  by (simp add: build_gnina_command_def artifact_path_def Let_def)

lemma split_at_count:
  "x @ c # y = x' @ c # y' \<Longrightarrow> count_list x c = count_list x' c \<Longrightarrow> x = x' \<and> y = y'"
proof (induction x arbitrary: x')
  case Nil
  then have "count_list x' c = 0" by simp
  then have "c \<notin> set x'" by (simp add: count_list_0_iff)
  with Nil.prems(1) show ?case by (cases x') auto
next
  case (Cons h t)
  show ?case
  proof (cases x')
    case Nil
    with Cons.prems show ?thesis by auto
  next
    case (Cons h' t')
    with Cons.prems have "h = h'" and "t @ c # y = t' @ c # y'"
      and "count_list t c = count_list t' c"
      by (auto split: if_splits)
    with Cons.IH [of t'] Cons show ?thesis by simp
  qed
qed

lemma tag_of_count:
  assumes "tag_of a = tag_of b"
    and "count_list (receptor a) CHR ''_'' = count_list (receptor b) CHR ''_''"
    and "count_list (site_id a) CHR ''_'' = count_list (site_id b) CHR ''_''"
  shows "item_key a = item_key b"
proof -
  from assms(1) have e: "receptor a @ CHR ''_'' # (site_id a @ CHR ''_'' # ligand a) =
      receptor b @ CHR ''_'' # (site_id b @ CHR ''_'' # ligand b)"
    by (simp add: tag_of_def)
  from split_at_count [OF e assms(2)]
  have r: "receptor a = receptor b"
    and e2: "site_id a @ CHR ''_'' # ligand a = site_id b @ CHR ''_'' # ligand b"
    by simp_all
  from split_at_count [OF e2 assms(3)]
  have "site_id a = site_id b" "ligand a = ligand b" by simp_all
  with r show ?thesis by (simp add: item_key_def)
qed

text \<open>
  C7 (as amended). The artifact path is a function of the identity key alone: two work
  items with the same key have the same artifact path, whatever the configuration, the
  docking box and the flexible residues. The converse fails in general, because the tag
  joins the three identifiers with underscores; exactly: two work items with the same
  artifact path have the same key if and only if their receptor identifiers contain the
  same number of underscores and their site identifiers contain the same number of
  underscores. So the path is injective on every catalog whose receptor identifiers
  agree in their number of underscores and whose site identifiers do (as with
  underscore-free receptors and the default site \<^verbatim>\<open>site_1\<close>), whatever the ligand
  identifiers.
\<close>

theorem artifact_path_injective:
  "(item_key a = item_key b \<longrightarrow>
      fst (snd (build_gnina_command si sf cfg a fa)) =
      fst (snd (build_gnina_command si' sf' cfg' b fb)))
   \<and> (fst (snd (build_gnina_command si sf cfg a fa)) =
        fst (snd (build_gnina_command si' sf' cfg' b fb)) \<longrightarrow>
      (item_key a = item_key b \<longleftrightarrow>
         count_list (receptor a) CHR ''_'' = count_list (receptor b) CHR ''_'' \<and>
         count_list (site_id a) CHR ''_'' = count_list (site_id b) CHR ''_''))"
proof (intro conjI impI)
  assume "item_key a = item_key b"
  then show "fst (snd (build_gnina_command si sf cfg a fa)) =
      fst (snd (build_gnina_command si' sf' cfg' b fb))"
    by (simp add: build_gnina_command_output artifact_path_def tag_of_def item_key_def)
next
  assume "fst (snd (build_gnina_command si sf cfg a fa)) =
      fst (snd (build_gnina_command si' sf' cfg' b fb))"
  then have t: "tag_of a = tag_of b"
    by (simp add: build_gnina_command_output artifact_path_def)
  show "item_key a = item_key b \<longleftrightarrow>
      count_list (receptor a) CHR ''_'' = count_list (receptor b) CHR ''_'' \<and>
      count_list (site_id a) CHR ''_'' = count_list (site_id b) CHR ''_''"
  proof
    assume "item_key a = item_key b"
    then show "count_list (receptor a) CHR ''_'' = count_list (receptor b) CHR ''_'' \<and>
        count_list (site_id a) CHR ''_'' = count_list (site_id b) CHR ''_''"
      by (simp add: item_key_def)
  next
    assume "count_list (receptor a) CHR ''_'' = count_list (receptor b) CHR ''_'' \<and>
        count_list (site_id a) CHR ''_'' = count_list (site_id b) CHR ''_''"
    then show "item_key a = item_key b" using tag_of_count [OF t] by blast
  qed
qed

text \<open>Two work items of one receptor at the default site \<^verbatim>\<open>site_1\<close>, the second with
  another docking box and another configuration: one key, one artifact path. And two
  ligands of that receptor and site never share an artifact path.\<close>

theorem artifact_path_injective_witness:
  "item_key (example_row ''rec_A'' ''site_1'' ''lig_7'') =
   item_key ((example_row ''rec_A'' ''site_1'' ''lig_7'')\<lparr>center_x := 5\<rparr>)
   \<and> fst (snd (build_gnina_command show_int show_float default_config
                (example_row ''rec_A'' ''site_1'' ''lig_7'') None)) =
     fst (snd (build_gnina_command show_int show_float (default_config\<lparr>seed := 7\<rparr>)
                ((example_row ''rec_A'' ''site_1'' ''lig_7'')\<lparr>center_x := 5\<rparr>) (Some [''A:42''])))
   \<and> artifact_path (example_row ''rec_A'' ''site_1'' ''lig_7'') =
       ''gnina_out/rec_A_site_1_lig_7_poses.sdf''
   \<and> count_list (site_id (example_row ''rec_A'' ''site_1'' ''lig_7'')) CHR ''_'' = 1
   \<and> fst (snd (build_gnina_command show_int show_float default_config
                (example_row ''rec_A'' ''site_1'' ''lig_7'') None)) \<noteq>
     fst (snd (build_gnina_command show_int show_float default_config
                (example_row ''rec_A'' ''site_1'' ''lig_8'') None))"
proof -
  let ?a = "example_row ''rec_A'' ''site_1'' ''lig_7''"
  let ?b = "(example_row ''rec_A'' ''site_1'' ''lig_7'')\<lparr>center_x := 5\<rparr>"
  let ?d = "example_row ''rec_A'' ''site_1'' ''lig_8''"
  let ?pa = "fst (snd (build_gnina_command show_int show_float default_config ?a None))"
  let ?pb = "fst (snd (build_gnina_command show_int show_float (default_config\<lparr>seed := 7\<rparr>)
      ?b (Some [''A:42''])))"
  let ?pd = "fst (snd (build_gnina_command show_int show_float default_config ?d None))"
  note T = artifact_path_injective [where a = ?a and b = ?b and cfg = default_config
      and cfg' = "default_config\<lparr>seed := 7\<rparr>" and si = show_int and si' = show_int
      and sf = show_float and sf' = show_float and fa = None and fb = "Some [''A:42'']"]
  note U = artifact_path_injective [where a = ?a and b = ?d and cfg = default_config
      and cfg' = default_config and si = show_int and si' = show_int
      and sf = show_float and sf' = show_float and fa = None and fb = None]
  have k: "item_key ?a = item_key ?b" by (simp add: item_key_def example_row_def)
  from T k have p: "?pa = ?pb" by blast
  have cr: "count_list (receptor ?a) CHR ''_'' = count_list (receptor ?b) CHR ''_''"
    and cs: "count_list (site_id ?a) CHR ''_'' = count_list (site_id ?b) CHR ''_''"
    by (simp_all add: example_row_def)
  from T p cr cs have "item_key ?a = item_key ?b" by blast
  moreover have n: "artifact_path ?a = ''gnina_out/rec_A_site_1_lig_7_poses.sdf''"
    by (simp add: artifact_path_def tag_of_def example_row_def)
  moreover have c1: "count_list (site_id ?a) CHR ''_'' = 1"
    by (simp add: example_row_def)
  moreover have "?pa \<noteq> ?pd"
  proof
    assume e: "?pa = ?pd"
    have "count_list (receptor ?a) CHR ''_'' = count_list (receptor ?d) CHR ''_'' \<and>
        count_list (site_id ?a) CHR ''_'' = count_list (site_id ?d) CHR ''_''"
      by (simp add: example_row_def)
    with U e have "item_key ?a = item_key ?d" by blast
    then show False by (simp add: item_key_def example_row_def)
  qed
  ultimately show ?thesis using p by blast
qed

text \<open>Two work items with distinct keys and one artifact path: the receptor of the first
  contains an underscore.\<close>

theorem artifact_path_collision:
  "item_key (example_row ''a_b'' ''c'' ''d'') \<noteq> item_key (example_row ''a'' ''b_c'' ''d'')
   \<and> fst (snd (build_gnina_command show_int show_float default_config
               (example_row ''a_b'' ''c'' ''d'') None)) =
     fst (snd (build_gnina_command show_int show_float default_config
               (example_row ''a'' ''b_c'' ''d'') None))"
  by (simp add: build_gnina_command_output artifact_path_def tag_of_def item_key_def
      example_row_def)

section \<open>Properties of the funnel controller\<close>

lemma series_quantile_value:
  "0 \<le> tp \<Longrightarrow> tp \<le> 1 \<Longrightarrow> xs \<noteq> [] \<Longrightarrow>
   series_quantile xs (1 - tp) = Inr (Some (linear_quantile xs (1 - tp)))"
  by (simp add: series_quantile_def)

lemma pair_scores_receptor_rows:
  "pair_scores df w \<noteq> [] \<Longrightarrow> receptor_rows df (receptor w) \<noteq> []"
  by (auto simp: pair_scores_def receptor_rows_def filter_empty_conv)

lemma keep_row_survives:
  assumes "top_percentage_valid c"
  shows "keep_row c df w = Inr (survives c df w)"
proof (cases "pair_scores df w = []")
  case True
  then show ?thesis by (simp add: keep_row_def survives_def)
next
  case False
  then have nz: "receptor_rows df (receptor w) \<noteq> []" by (rule pair_scores_receptor_rows)
  show ?thesis
  proof (cases "top_percentage c")
    case None
    with False show ?thesis
      by (simp add: keep_row_def survives_def best_score_def Let_def not_less
          split: option.splits)
  next
    case (Some tp)
    with assms have r: "0 \<le> tp" "tp \<le> 1" by (simp_all add: top_percentage_valid_def)
    have q: "series_quantile (map df_cnn_score (receptor_rows df (receptor w))) (1 - tp) =
        Inr (Some (linear_quantile (map df_cnn_score (receptor_rows df (receptor w))) (1 - tp)))"
      using r nz by (simp add: series_quantile_value)
    from False Some q show ?thesis
      by (simp add: keep_row_def survives_def best_score_def Let_def not_less
          split: option.splits bool.splits)
  qed
qed

lemma filter_rows_survives:
  assumes "top_percentage_valid c"
  shows "filter_rows c df ws = Inr (filter (survives c df) ws)"
  by (induction ws) (simp_all add: keep_row_survives [OF assms])

lemma result_rows_status:
  assumes "s \<in> set (result_rows res)"
  shows "status res = Success"
proof (rule ccontr)
  assume "status res \<noteq> Success"
  then have "result_rows res = []" by (simp add: result_rows_def)
  with assms show False by simp
qed

lemma result_rows_scores:
  assumes "s \<in> set (result_rows res)"
  shows "\<exists>pl. scores res = Some pl \<and> s \<in> set (map (\<lambda>score_data.
                  \<lparr>df_receptor = r_receptor res, df_ligand = r_ligand res,
                   df_site_id = r_site_id res, df_cnn_score = cnn_score score_data\<rparr>) pl)"
proof (cases "scores res")
  case None
  then have "result_rows res = []" by (simp add: result_rows_def)
  with assms show ?thesis by simp
next
  case (Some pl)
  with result_rows_status [OF assms] have "result_rows res = map (\<lambda>score_data.
                  \<lparr>df_receptor = r_receptor res, df_ligand = r_ligand res,
                   df_site_id = r_site_id res, df_cnn_score = cnn_score score_data\<rparr>) pl"
    by (simp add: result_rows_def)
  with assms Some show ?thesis by simp
qed

lemma result_rows_source:
  assumes "s \<in> set (result_rows res)"
  shows "status res = Success \<and> r_receptor res = df_receptor s \<and>
      r_ligand res = df_ligand s \<and> r_site_id res = df_site_id s \<and>
      (\<exists>pl. scores res = Some pl \<and> pl \<noteq> [])"
proof -
  from result_rows_scores [OF assms] obtain pl p where pl: "scores res = Some pl" and p: "p \<in> set pl" and
    s: "s = \<lparr>df_receptor = r_receptor res, df_ligand = r_ligand res,
                   df_site_id = r_site_id res, df_cnn_score = cnn_score p\<rparr>"
    by auto
  from p have "pl \<noteq> []" by auto
  with result_rows_status [OF assms] pl s show ?thesis by simp
qed

lemma successful_scores_source:
  assumes "s \<in> set (successful_scores ps)"
  shows "\<exists>res \<in> set ps. status res = Success \<and> r_receptor res = df_receptor s \<and>
      r_ligand res = df_ligand s \<and> r_site_id res = df_site_id s \<and>
      (\<exists>pl. scores res = Some pl \<and> pl \<noteq> [])"
proof -
  from assms obtain res where "res \<in> set ps" "s \<in> set (result_rows res)"
    by (auto simp: successful_scores_def)
  with result_rows_source [of s res] show ?thesis by blast
qed

lemma survives_has_scored_success:
  assumes "survives c (successful_scores ps) w"
  shows "has_scored_success ps w"
proof -
  from assms have "pair_scores (successful_scores ps) w \<noteq> []" by (simp add: survives_def)
  then obtain s where s: "s \<in> set (successful_scores ps)" "df_receptor s = receptor w"
    "df_ligand s = ligand w" "df_site_id s = site_id w"
    by (auto simp: pair_scores_def filter_empty_conv)
  from successful_scores_source [OF s(1)] s(2-4) show ?thesis
    by (auto simp: has_scored_success_def list_ex_iff)
qed

lemma successful_scores_Nil [simp]: "successful_scores [] = []"
  by (simp add: successful_scores_def)

lemma filter_ligands_for_stage_eq:
  assumes "tbl stage = Some c" and "top_percentage_valid c"
  shows "filter_ligands_for_stage tbl stage prev pairlist =
     Inr (if stage = ''A'' \<or> successful_scores (case prev of None \<Rightarrow> [] | Some ps \<Rightarrow> ps) = []
          then pairlist
          else filter (survives c (successful_scores (case prev of None \<Rightarrow> [] | Some ps \<Rightarrow> ps)))
                 pairlist)"
proof (cases prev)
  case None
  with assms show ?thesis
    by (simp add: filter_ligands_for_stage_def get_stage_config_def)
next
  case (Some ps)
  show ?thesis
  proof (cases ps)
    case Nil
    with Some assms show ?thesis
      by (simp add: filter_ligands_for_stage_def get_stage_config_def)
  next
    case (Cons p ps')
    with Some assms show ?thesis
      by (simp add: filter_ligands_for_stage_def get_stage_config_def filter_rows_survives Let_def)
  qed
qed





text \<open>
  C3 (as amended). For a stage of the table whose top percentage is unset or within
  \<open>[0, 1]\<close>, \<^verbatim>\<open>filter_ligands_for_stage\<close> returns a sub-list of the catalog, in catalog
  order. When the stage is not \<open>A\<close> and the prior results contain at least one pose of a
  successful result, every returned work item has a successful prior result with at least
  one pose. When the stage is \<open>A\<close>, or the prior results are absent, empty or without any
  pose of a successful result, the whole catalog is returned.
\<close>

theorem filter_ligands_for_stage_subset:
  assumes "tbl stage = Some c" and "top_percentage_valid c"
  shows "\<exists>out. filter_ligands_for_stage tbl stage prev pairlist = Inr out \<and>
     subseq out pairlist \<and>
     (stage \<noteq> ''A'' \<and> successful_scores (the_results prev) \<noteq> [] \<longrightarrow>
        (\<forall>w \<in> set out. has_scored_success (the_results prev) w)) \<and>
     (stage = ''A'' \<or> successful_scores (the_results prev) = [] \<longrightarrow> out = pairlist)"
proof -
  let ?df = "successful_scores (the_results prev)"
  let ?out = "if stage = ''A'' \<or> ?df = [] then pairlist else filter (survives c ?df) pairlist"
  have eq: "filter_ligands_for_stage tbl stage prev pairlist = Inr ?out"
    using filter_ligands_for_stage_eq [where tbl = tbl and stage = stage and c = c
        and prev = prev and pairlist = pairlist] assms
    by (simp add: the_results_def)
  have sub: "subseq ?out pairlist" by simp
  have scored: "stage \<noteq> ''A'' \<and> ?df \<noteq> [] \<longrightarrow>
      (\<forall>w \<in> set ?out. has_scored_success (the_results prev) w)"
    by (auto intro: survives_has_scored_success)
  have full: "stage = ''A'' \<or> ?df = [] \<longrightarrow> ?out = pairlist" by simp
  from eq sub scored full show ?thesis by blast
qed

theorem filter_ligands_for_stage_subset_witness:
  "filter_ligands_for_stage stages ''B''
     (Some [success_result (lig ''a'') [95 / 100], error_result (lig ''b'')])
     [lig ''a'', lig ''b''] = Inr [lig ''a'']
   \<and> subseq [lig ''a''] [lig ''a'', lig ''b'']
   \<and> has_scored_success [success_result (lig ''a'') [95 / 100], error_result (lig ''b'')]
       (lig ''a'')"
proof -
  let ?prev = "Some [success_result (lig ''a'') [95 / 100], error_result (lig ''b'')]"
  have ev: "filter_ligands_for_stage stages ''B'' ?prev [lig ''a'', lig ''b''] = Inr [lig ''a'']"
    by code_simp
  have h1: "stages ''B'' = Some \<lparr>stage_name = ''Focused Refinement'',
      stage_cnn_scoring = ''refinement'', stage_exhaustiveness = 24, stage_num_modes = 15,
      description = ''Balanced refinement with CNN pose optimization'',
      cnn_score_threshold = 7 / 10, max_ligands_per_receptor = Some 5,
      top_percentage = Some (5 / 100), use_case = ''Focused re-docking, pose refinement''\<rparr>"
    by (simp add: stages_def)
  have h2: "top_percentage_valid \<lparr>stage_name = ''Focused Refinement'',
      stage_cnn_scoring = ''refinement'', stage_exhaustiveness = 24, stage_num_modes = 15,
      description = ''Balanced refinement with CNN pose optimization'',
      cnn_score_threshold = 7 / 10, max_ligands_per_receptor = Some 5,
      top_percentage = Some (5 / 100), use_case = ''Focused re-docking, pose refinement''\<rparr>"
    by (simp add: top_percentage_valid_def)
  have ne: "''B'' \<noteq> ''A'' \<and> successful_scores (the_results ?prev) \<noteq> []"
    by code_simp
  from filter_ligands_for_stage_subset [where tbl = stages and stage = "''B''"
      and prev = ?prev and pairlist = "[lig ''a'', lig ''b'']", OF h1 h2] ev ne
  have "subseq [lig ''a''] [lig ''a'', lig ''b''] \<and>
      (\<forall>w \<in> set [lig ''a'']. has_scored_success (the_results ?prev) w)"
    by auto
  then show ?thesis using ev by (simp add: the_results_def)
qed

text \<open>Stage \<open>B\<close> with one prior result, a failure: the failed work item is in the stage's
  input.\<close>

theorem filter_ligands_for_stage_keeps_failed:
  "filter_ligands_for_stage stages ''B'' (Some [error_result (lig ''a'')]) [lig ''a''] =
     Inr [lig ''a''] \<and> \<not> has_scored_success [error_result (lig ''a'')] (lig ''a'')"
  by code_simp







section \<open>Properties of the batch scheduler\<close>

lemma run_single_docking_skip:
  "tag_of w \<in> C \<Longrightarrow> run_single_docking ev cfg C fs w fl = (None, fs, None)"
  by (simp add: run_single_docking_def)

lemma run_single_docking_dispatch:
  assumes "tag_of w \<notin> C"
  shows "\<exists>r fs' cmd. run_single_docking ev cfg C fs w fl = (Some r, fs', Some cmd) \<and>
     pair_id r = tag_of w \<and> r_receptor r = receptor w \<and> r_ligand r = ligand w \<and>
     r_site_id r = site_id w \<and>
     cmd = fst (build_gnina_command (str_int ev) (str_float ev) cfg w fl) \<and>
     fs' = snd (subprocess_run ev cmd (timeout cfg) fs) \<and>
     (status r = Success \<longleftrightarrow>
        (\<exists>err. fst (subprocess_run ev cmd (timeout cfg) fs) = Completed 0 err) \<and>
        path_exists fs' (artifact_path w))"
proof -
  obtain cmd out lg where b: "build_gnina_command (str_int ev) (str_float ev) cfg w fl =
      (cmd, out, lg)" by (cases "build_gnina_command (str_int ev) (str_float ev) cfg w fl") auto
  have out: "out = artifact_path w"
    using b by (simp add: build_gnina_command_def artifact_path_def Let_def)
  obtain oc fs' where p: "subprocess_run ev cmd (timeout cfg) fs = (oc, fs')"
    by (cases "subprocess_run ev cmd (timeout cfg) fs") auto
  show ?thesis
    using assms b p out
    by (cases oc) (auto simp: run_single_docking_def Let_def)
qed

lemma process_row_unchanged:
  "config (process_row ev fd b s w) = config s"
  "max_workers (process_row ev fd b s w) = max_workers s"
  "completed_pairs (process_row ev fd b s w) = completed_pairs s"
  "total_pairs (process_row ev fd b s w) = total_pairs s"
  "pending (process_row ev fd b s w) = pending s"
  "collected (process_row ev fd b s w) = collected s"
  "all_results (process_row ev fd b s w) = all_results s"
  "successful (process_row ev fd b s w) = successful s"
  "failed (process_row ev fd b s w) = failed s"
  "b' \<noteq> b \<Longrightarrow> batch_results (process_row ev fd b s w) b' = batch_results s b'"
  by (simp_all add: process_row_def split: prod.splits)

lemma process_row_skip:
  assumes "tag_of w \<in> completed_pairs s"
  shows "batch_results (process_row ev fd b s w) b = batch_results s b"
    and "invoked (process_row ev fd b s w) = invoked s"
    and "disk (process_row ev fd b s w) = disk s"
  using assms by (simp_all add: process_row_def run_single_docking_skip)

lemma process_row_dispatch:
  assumes "tag_of w \<notin> completed_pairs s"
  shows "\<exists>r c. batch_results (process_row ev fd b s w) b = batch_results s b @ [r] \<and>
      pair_id r = tag_of w \<and> invoked (process_row ev fd b s w) = invoked s @ [(w, c)]"
proof -
  from run_single_docking_dispatch [OF assms, of ev "config s" "disk s" "fd (receptor w)"]
  obtain r fs' cmd where
    "run_single_docking ev (config s) (completed_pairs s) (disk s) w (fd (receptor w)) =
       (Some r, fs', Some cmd)" and "pair_id r = tag_of w"
    by blast
  then show ?thesis by (simp add: process_row_def)
qed

lemma foldl_count_result:
  "completed_pairs (foldl count_result s rs) =
     completed_pairs s \<union> pair_id ` {r \<in> set rs. status r = Success}"
  "config (foldl count_result s rs) = config s"
  "max_workers (foldl count_result s rs) = max_workers s"
  "total_pairs (foldl count_result s rs) = total_pairs s"
  "pending (foldl count_result s rs) = pending s"
  "batch_results (foldl count_result s rs) = batch_results s"
  "collected (foldl count_result s rs) = collected s"
  "all_results (foldl count_result s rs) = all_results s"
  "invoked (foldl count_result s rs) = invoked s"
  "disk (foldl count_result s rs) = disk s"
  by (induction rs arbitrary: s; auto simp: count_result_def)+

lemma collect_batch_fields:
  "completed_pairs (collect_batch ev batches b s) =
     completed_pairs s \<union> pair_id ` {r \<in> set (batch_results s b). status r = Success}"
  "config (collect_batch ev batches b s) = config s"
  "max_workers (collect_batch ev batches b s) = max_workers s"
  "total_pairs (collect_batch ev batches b s) = total_pairs s"
  "pending (collect_batch ev batches b s) = pending s"
  "batch_results (collect_batch ev batches b s) = batch_results s"
  "collected (collect_batch ev batches b s) = collected s @ [b]"
  "all_results (collect_batch ev batches b s) = all_results s @ batch_results s b"
  "invoked (collect_batch ev batches b s) = invoked s"
  by (simp_all add: collect_batch_def Let_def foldl_count_result split: prod.splits)

lemma upt_split_at: "b < n \<Longrightarrow> [0 ..< n] = [0 ..< b] @ b # [Suc b ..< n]"
  by (metis less_imp_add_positive upt_add_eq_append upt_conv_Cons zero_le add_0
      less_or_eq_imp_le)

lemma concat_map_fun_upd:
  assumes "b < n"
  shows "concat (map (f(b := ys)) [0 ..< n]) =
     concat (map f [0 ..< b]) @ ys @ concat (map f [Suc b ..< n])"
proof -
  have "map (f(b := ys)) [0 ..< b] = map f [0 ..< b]" by simp
  moreover have "map (f(b := ys)) [Suc b ..< n] = map f [Suc b ..< n]" by simp
  ultimately show ?thesis using upt_split_at [OF assms] by simp
qed

lemma mset_filter_concat_upd:
  assumes "b < n"
  shows "mset (filter P (concat (map (f(b := ys)) [0 ..< n]))) + mset (filter P (f b)) =
     mset (filter P (concat (map f [0 ..< n]))) + mset (filter P ys)"
proof -
  have "concat (map f [0 ..< n]) = concat (map f [0 ..< b]) @ f b @ concat (map f [Suc b ..< n])"
    using concat_map_fun_upd [OF assms, of f "f b"] by simp
  then show ?thesis by (simp add: concat_map_fun_upd [OF assms])
qed

lemma distinct_concat_parts:
  assumes "distinct (map f (concat xss))" and "i < length xss" and "j < length xss"
    and "i \<noteq> j" and "x \<in> set (xss ! i)" and "y \<in> set (xss ! j)"
  shows "f x \<noteq> f y"
  using assms
proof (induction xss arbitrary: i j)
  case Nil
  then show ?case by simp
next
  case (Cons a rest)
  from Cons.prems(1) have d: "distinct (map f (concat rest))"
    and dis: "f ` set a \<inter> f ` set (concat rest) = {}" by auto
  show ?case
  proof (cases i)
    case 0
    with Cons.prems obtain j' where j: "j = Suc j'" by (cases j) auto
    with Cons.prems have "y \<in> set (concat rest)" by auto
    moreover from 0 Cons.prems have "x \<in> set a" by simp
    ultimately show ?thesis using dis by blast
  next
    case (Suc i')
    show ?thesis
    proof (cases j)
      case 0
      with Cons.prems have "y \<in> set a" by simp
      moreover from Suc Cons.prems have "x \<in> set (concat rest)" by auto
      ultimately show ?thesis using dis by blast
    next
      case (Suc j')
      with \<open>i = Suc i'\<close> Cons.prems Cons.IH [OF d, of i' j'] show ?thesis by simp
    qed
  qed
qed

lemma step_disabled:
  "\<not> work_enabled batches s b \<Longrightarrow> step ev fd batches s (Work b) = s"
  "\<not> collect_enabled batches s b \<Longrightarrow> step ev fd batches s (Collect b) = s"
  by (simp_all add: step_def)

lemma step_Collect:
  "collect_enabled batches s b \<Longrightarrow> step ev fd batches s (Collect b) = collect_batch ev batches b s"
  by (simp add: step_def)

lemma step_Work_unchanged:
  assumes "work_enabled batches s b"
  shows "pending (step ev fd batches s (Work b)) = (pending s)(b := tl (pending s b))"
    and "collected (step ev fd batches s (Work b)) = collected s"
    and "all_results (step ev fd batches s (Work b)) = all_results s"
    and "completed_pairs (step ev fd batches s (Work b)) = completed_pairs s"
    and "max_workers (step ev fd batches s (Work b)) = max_workers s"
    and "c \<noteq> b \<Longrightarrow> batch_results (step ev fd batches s (Work b)) c = batch_results s c"
  using assms by (simp_all add: step_def process_row_unchanged)

lemma step_Work_skip:
  assumes "work_enabled batches s b" and "tag_of (hd (pending s b)) \<in> completed_pairs s"
  shows "batch_results (step ev fd batches s (Work b)) b = batch_results s b"
    and "invoked (step ev fd batches s (Work b)) = invoked s"
  using assms by (simp_all add: step_def process_row_skip)

lemma step_Work_dispatch:
  assumes "work_enabled batches s b" and "tag_of (hd (pending s b)) \<notin> completed_pairs s"
  shows "\<exists>r c. batch_results (step ev fd batches s (Work b)) b = batch_results s b @ [r] \<and>
      pair_id r = tag_of (hd (pending s b)) \<and>
      invoked (step ev fd batches s (Work b)) = invoked s @ [(hd (pending s b), c)]"
proof -
  let ?sp = "s\<lparr>pending := (pending s)(b := tl (pending s b))\<rparr>"
  have "tag_of (hd (pending s b)) \<notin> completed_pairs ?sp" using assms(2) by simp
  from process_row_dispatch [OF this, of ev fd b] assms(1) show ?thesis
    by (simp add: step_def)
qed

lemma step_ledger_inv:
  assumes "ledger_inv L batches s"
  shows "ledger_inv L batches (step ev fd batches s e)"
proof (cases e)
  case (Work b)
  show ?thesis
  proof (cases "work_enabled batches s b")
    case False
    with Work assms show ?thesis by (simp add: step_disabled)
  next
    case True
    note f = step_Work_unchanged [OF True, where ev = ev and fd = fd]
    from True have pb: "pending s b \<noteq> []" by (simp add: work_enabled_def)
    from assms have nc: "b \<notin> set (collected s)" using pb by (auto simp: ledger_inv_def)
    have suf: "\<forall>c < length batches. suffix (((pending s)(b := tl (pending s b))) c) (batches ! c)"
    proof (intro allI impI)
      fix c assume c: "c < length batches"
      with assms have s: "suffix (pending s c) (batches ! c)" by (simp add: ledger_inv_def)
      show "suffix (((pending s)(b := tl (pending s b))) c) (batches ! c)"
      proof (cases "c = b")
        case True
        with s suffix_order.trans [OF suffix_tl] show ?thesis by auto
      next
        case False
        with s show ?thesis by simp
      qed
    qed
    have res: "map (batch_results (step ev fd batches s (Work b))) (collected s) =
        map (batch_results s) (collected s)"
      using nc by (intro map_cong refl f(6)) auto
    have c3: "\<forall>c \<in> set (collected s). c < length batches \<and>
        ((pending s)(b := tl (pending s b))) c = []"
      using assms nc by (auto simp: ledger_inv_def)
    have c4: "all_results s = concat (map (batch_results (step ev fd batches s (Work b)))
        (collected s))"
      using assms by (simp only: res) (simp add: ledger_inv_def)
    have c5: "completed_pairs s = L \<union> pair_id ` {r \<in> set (all_results s). status r = Success}"
      and c2: "distinct (collected s)"
      using assms by (simp_all add: ledger_inv_def)
    show ?thesis
      unfolding Work ledger_inv_def f(1-4)
      using suf c2 c3 c4 c5 by blast
  qed
next
  case (Collect b)
  show ?thesis
  proof (cases "collect_enabled batches s b")
    case False
    with Collect assms show ?thesis by (simp add: step_disabled)
  next
    case True
    then have b: "b < length batches" "pending s b = []" "b \<notin> set (collected s)"
      by (simp_all add: collect_enabled_def)
    from assms b show ?thesis
      unfolding Collect step_Collect [OF True] ledger_inv_def collect_batch_fields
      by auto
  qed
qed

lemma skip_iff_ledger:
  assumes D: "distinct (map tag_of (concat batches))"
    and li: "ledger_inv L batches s" and di: "dispatch_inv L batches s"
    and b: "b < length batches" and w: "w \<in> set (pending s b)"
  shows "tag_of w \<in> completed_pairs s \<longleftrightarrow> tag_of w \<in> L"
proof
  assume "tag_of w \<in> L"
  with li show "tag_of w \<in> completed_pairs s" by (simp add: ledger_inv_def)
next
  assume c: "tag_of w \<in> completed_pairs s"
  show "tag_of w \<in> L"
  proof (rule ccontr)
    assume nl: "tag_of w \<notin> L"
    from li have d: "completed_pairs s =
        L \<union> pair_id ` {r \<in> set (all_results s). status r = Success}"
      and e: "all_results s = concat (map (batch_results s) (collected s))"
      by (simp_all add: ledger_inv_def)
    from c nl d obtain r where r: "r \<in> set (all_results s)" "pair_id r = tag_of w"
      by auto
    from r(1) have "r \<in> set (concat (map (batch_results s) (collected s)))"
      by (simp only: e [symmetric])
    then obtain c where c: "c \<in> set (collected s)" "r \<in> set (batch_results s c)"
      by auto
    with li have cl: "c < length batches" and pc: "pending s c = []"
      by (auto simp: ledger_inv_def)
    from di cl pc have "map pair_id (batch_results s c) =
        map tag_of (filter (\<lambda>w. tag_of w \<notin> L) (batches ! c))"
      by (auto simp: dispatch_inv_def)
    then have "set (map pair_id (batch_results s c)) \<subseteq> tag_of ` set (batches ! c)"
      by auto
    with c(2) r(2) obtain w' where w': "w' \<in> set (batches ! c)" "tag_of w' = tag_of w"
      by force
    from li b have "suffix (pending s b) (batches ! b)" by (simp add: ledger_inv_def)
    with w have wb: "w \<in> set (batches ! b)" using set_mono_suffix by blast
    from w pc have "b \<noteq> c" by auto
    from distinct_concat_parts [OF D b cl this wb w'(1)] w'(2) show False by simp
  qed
qed

lemma step_dispatch_inv:
  assumes D: "distinct (map tag_of (concat batches))"
    and li: "ledger_inv L batches s" and di: "dispatch_inv L batches s"
  shows "dispatch_inv L batches (step ev fd batches s e)"
proof (cases e)
  case (Collect b)
  show ?thesis
  proof (cases "collect_enabled batches s b")
    case False
    with Collect di show ?thesis by (simp add: step_disabled)
  next
    case True
    with di show ?thesis
      unfolding Collect step_Collect [OF True] dispatch_inv_def collect_batch_fields by simp
  qed
next
  case (Work b)
  show ?thesis
  proof (cases "work_enabled batches s b")
    case False
    with Work di show ?thesis by (simp add: step_disabled)
  next
    case True
    let ?P = "\<lambda>w. tag_of w \<notin> L"
    let ?s' = "step ev fd batches s (Work b)"
    let ?n = "length batches"
    note f = step_Work_unchanged [OF True, where ev = ev and fd = fd]
    from True have b: "b < ?n" and pb: "pending s b \<noteq> []" by (simp_all add: work_enabled_def)
    then obtain w rest where p: "pending s b = w # rest" by (cases "pending s b") auto
    have sk: "tag_of w \<in> completed_pairs s \<longleftrightarrow> tag_of w \<in> L"
      using skip_iff_ledger [OF D li di b, of w] p by simp
    from di b have ib: "map pair_id (batch_results s b) @ map tag_of (filter ?P (pending s b)) =
        map tag_of (filter ?P (batches ! b))" by (simp add: dispatch_inv_def)
    from di have ic: "mset (map fst (invoked s)) +
        mset (filter ?P (concat (map (pending s) [0 ..< ?n]))) =
        mset (filter ?P (concat batches))" by (simp add: dispatch_inv_def)
    have upd: "mset (filter ?P (concat (map ((pending s)(b := rest)) [0 ..< ?n]))) +
        mset (filter ?P (w # rest)) =
        mset (filter ?P (concat (map (pending s) [0 ..< ?n]))) + mset (filter ?P rest)"
      using mset_filter_concat_upd [OF b, of ?P "pending s" rest] p by simp
    have pend: "pending ?s' = (pending s)(b := rest)" using f(1) p by simp
    have both: "map pair_id (batch_results ?s' b) @ map tag_of (filter ?P rest) =
          map tag_of (filter ?P (batches ! b)) \<and>
        mset (map fst (invoked ?s')) +
          mset (filter ?P (concat (map ((pending s)(b := rest)) [0 ..< ?n]))) =
        mset (filter ?P (concat batches))"
    proof (cases "tag_of w \<in> L")
      case inL: True
      with sk p have "tag_of (hd (pending s b)) \<in> completed_pairs s" by simp
      from step_Work_skip [OF True this, of ev fd]
      have "batch_results ?s' b = batch_results s b" "invoked ?s' = invoked s" by simp_all
      with inL ib ic upd p show ?thesis by simp
    next
      case notL: False
      with sk p have "tag_of (hd (pending s b)) \<notin> completed_pairs s" by simp
      from step_Work_dispatch [OF True this, of ev fd] p
      obtain r c where r: "batch_results ?s' b = batch_results s b @ [r]"
        "pair_id r = tag_of w" "invoked ?s' = invoked s @ [(w, c)]" by auto
      from notL ib p r have one: "map pair_id (batch_results ?s' b) @ map tag_of (filter ?P rest) =
          map tag_of (filter ?P (batches ! b))" by simp
      from notL upd have "mset (filter ?P (concat (map ((pending s)(b := rest)) [0 ..< ?n]))) +
          {#w#} = mset (filter ?P (concat (map (pending s) [0 ..< ?n])))" by simp
      with ic r(3) have "mset (map fst (invoked ?s')) +
          mset (filter ?P (concat (map ((pending s)(b := rest)) [0 ..< ?n]))) =
        mset (filter ?P (concat batches))"
        by (metis (no_types, lifting) add.assoc add.commute add_mset_add_single fst_conv
            map_append list.simps(8,9) mset.simps(1,2) mset_append mset_map)
      with one show ?thesis by blast
    qed
    have others: "\<forall>c < ?n. c \<noteq> b \<longrightarrow>
        map pair_id (batch_results ?s' c) @ map tag_of (filter ?P (pending s c)) =
        map tag_of (filter ?P (batches ! c))"
      using di f(6) by (simp add: dispatch_inv_def)
    show ?thesis
      unfolding Work dispatch_inv_def pend using both others by auto
  qed
qed

lemma step_max_workers: "max_workers (step ev fd batches s e) = max_workers s"
  by (cases e) (simp_all add: step_def process_row_unchanged collect_batch_fields)

lemma step_pending_empty:
  assumes "pending s b = []"
  shows "pending (step ev fd batches s e) b = []"
proof (cases e)
  case (Work c)
  show ?thesis
  proof (cases "work_enabled batches s c")
    case True
    with assms have "c \<noteq> b" by (auto simp: work_enabled_def)
    with assms show ?thesis unfolding Work step_Work_unchanged(1) [OF True] by simp
  next
    case False
    with assms Work show ?thesis by (simp add: step_disabled)
  qed
next
  case (Collect c)
  with assms show ?thesis by (simp add: step_def collect_batch_fields)
qed

lemma step_collected_mono:
  assumes "b \<in> set (collected s)"
  shows "b \<in> set (collected (step ev fd batches s e))"
proof (cases e)
  case (Work c)
  with assms show ?thesis
    by (cases "work_enabled batches s c") (simp_all add: step_disabled step_Work_unchanged)
next
  case (Collect c)
  with assms show ?thesis by (simp add: step_def collect_batch_fields)
qed

lemma step_finished_upto:
  "finished_upto k s \<Longrightarrow> finished_upto k (step ev fd batches s e)"
  by (simp add: finished_upto_def step_pending_empty step_collected_mono)

lemma foldl_step_max_workers:
  "max_workers (foldl (step ev fd batches) s es) = max_workers s"
  by (induction es arbitrary: s) (simp_all add: step_max_workers)

lemma foldl_step_finished_upto:
  "finished_upto k s \<Longrightarrow> finished_upto k (foldl (step ev fd batches) s es)"
  by (induction es arbitrary: s) (simp_all add: step_finished_upto)

lemma foldl_step_ledger_inv:
  "ledger_inv L batches s \<Longrightarrow> ledger_inv L batches (foldl (step ev fd batches) s es)"
  by (induction es arbitrary: s) (simp_all add: step_ledger_inv)

lemma foldl_step_dispatch_inv:
  assumes "distinct (map tag_of (concat batches))"
  shows "ledger_inv L batches s \<Longrightarrow> dispatch_inv L batches s \<Longrightarrow>
     dispatch_inv L batches (foldl (step ev fd batches) s es)"
  by (induction es arbitrary: s) (simp_all add: step_ledger_inv step_dispatch_inv [OF assms])

lemma work_phase:
  assumes "0 < max_workers s" and "finished_upto b s" and "b < length batches"
  shows "length (pending (foldl (step ev fd batches) s (replicate m (Work b))) b) =
     length (pending s b) - m"
  using assms
proof (induction m arbitrary: s)
  case 0
  then show ?case by simp
next
  case (Suc m)
  let ?s1 = "step ev fd batches s (Work b)"
  have mw: "0 < max_workers ?s1" using Suc.prems(1) by (simp add: step_max_workers)
  have fu: "finished_upto b ?s1" using Suc.prems(2) by (rule step_finished_upto)
  have len: "length (pending ?s1 b) = length (pending s b) - 1"
  proof (cases "pending s b = []")
    case True
    then show ?thesis by (simp add: step_pending_empty)
  next
    case False
    have "filter (\<lambda>i. pending s i \<noteq> []) [0 ..< b] = []"
      using Suc.prems(2) by (auto simp: finished_upto_def filter_empty_conv)
    with False Suc.prems have "work_enabled batches s b" by (simp add: work_enabled_def)
    then show ?thesis by (simp add: step_Work_unchanged(1))
  qed
  from Suc.IH [OF mw fu Suc.prems(3)] len show ?case by simp
qed

lemma batch_phase:
  assumes mw: "0 < max_workers s" and fu: "finished_upto b s" and b: "b < length batches"
    and li: "ledger_inv L batches s"
  shows "finished_upto (Suc b)
     (foldl (step ev fd batches) s (replicate (length (batches ! b)) (Work b) @ [Collect b]))"
proof -
  let ?s1 = "foldl (step ev fd batches) s (replicate (length (batches ! b)) (Work b))"
  from li b have "suffix (pending s b) (batches ! b)" by (simp add: ledger_inv_def)
  then have "length (pending s b) \<le> length (batches ! b)" by (rule suffix_length_le)
  with work_phase [OF mw fu b, of ev fd "length (batches ! b)"]
  have p1: "pending ?s1 b = []" by simp
  have fu1: "finished_upto b ?s1" using fu by (rule foldl_step_finished_upto)
  let ?s2 = "step ev fd batches ?s1 (Collect b)"
  have p2: "pending ?s2 b = []" using p1 by (rule step_pending_empty)
  have c2: "b \<in> set (collected ?s2)"
  proof (cases "b \<in> set (collected ?s1)")
    case True
    then show ?thesis by (rule step_collected_mono)
  next
    case False
    with p1 b have "collect_enabled batches ?s1 b" by (simp add: collect_enabled_def)
    then show ?thesis by (simp add: step_Collect collect_batch_fields)
  qed
  have "finished_upto b ?s2" using fu1 by (rule step_finished_upto)
  with p2 c2 have "finished_upto (Suc b) ?s2"
    by (auto simp: finished_upto_def less_Suc_eq)
  then show ?thesis by simp
qed

lemma drain_prefix_finishes:
  assumes mw: "0 < max_workers s" and li: "ledger_inv L batches s"
  shows "k \<le> length batches \<Longrightarrow>
     finished_upto k (foldl (step ev fd batches) s
       (concat (map (\<lambda>b. replicate (length (batches ! b)) (Work b) @ [Collect b]) [0 ..< k])))"
proof (induction k)
  case 0
  show ?case by (simp add: finished_upto_def)
next
  case (Suc k)
  let ?g = "\<lambda>b. replicate (length (batches ! b)) (Work b) @ [Collect b]"
  let ?s1 = "foldl (step ev fd batches) s (concat (map ?g [0 ..< k]))"
  from Suc have fu: "finished_upto k ?s1" by simp
  have mw1: "0 < max_workers ?s1" using mw by (simp add: foldl_step_max_workers)
  have li1: "ledger_inv L batches ?s1" using li by (rule foldl_step_ledger_inv)
  from Suc.prems have k: "k < length batches" by simp
  from batch_phase [OF mw1 fu k li1, of ev fd]
  show ?case by simp
qed

lemma drain_finishes:
  assumes "0 < max_workers s" and "ledger_inv L batches s"
  shows "finished_upto (length batches)
     (foldl (step ev fd batches) s (es @ drain_schedule batches))"
proof -
  let ?s1 = "foldl (step ev fd batches) s es"
  have "0 < max_workers ?s1" using assms(1) by (simp add: foldl_step_max_workers)
  moreover have "ledger_inv L batches ?s1" using assms(2) by (rule foldl_step_ledger_inv)
  ultimately show ?thesis
    using drain_prefix_finishes [of ?s1 L batches "length batches" ev fd]
    by (simp add: drain_schedule_def)
qed

lemma initial_ledger_inv:
  "ledger_inv (completed_pairs eng) batches (initial_state eng fs batches)"
  by (simp add: ledger_inv_def initial_state_def)

lemma initial_dispatch_inv:
  "dispatch_inv (completed_pairs eng) batches (initial_state eng fs batches)"
proof -
  have "map (\<lambda>b. if b < length batches then batches ! b else []) [0 ..< length batches] =
      map ((!) batches) [0 ..< length batches]"
    by (rule map_cong) simp_all
  then have "concat (map (\<lambda>b. if b < length batches then batches ! b else [])
      [0 ..< length batches]) = concat batches"
    by (simp only: map_nth)
  then show ?thesis by (simp add: dispatch_inv_def initial_state_def)
qed

lemma concat_chunks_take:
  "concat (map (\<lambda>k. take n (drop (k * n) xs)) [0 ..< m]) = take (m * n) xs"
proof (induction m)
  case 0
  show ?case by simp
next
  case (Suc m)
  have "Suc m * n = m * n + n" by simp
  then have "take (Suc m * n) xs = take (m * n + n) xs" by (simp only:)
  also have "\<dots> = take (m * n) xs @ take n (drop (m * n) xs)" by (rule take_add)
  finally show ?case using Suc by simp
qed

lemma ceil_cover:
  fixes k n :: nat
  assumes n: "0 < n"
  shows "k \<le> (k + n - 1) div n * n"
proof -
  define a where "a = k + n - 1"
  have "a mod n < n" using n by simp
  moreover have "a = a div n * n + a mod n" by simp
  moreover have "a + 1 = k + n" using n by (simp add: a_def)
  ultimately have "k \<le> a div n * n" by linarith
  then show ?thesis by (simp add: a_def)
qed

lemma concat_make_batches:
  assumes "make_batches xs bs = Inr batches" and "0 < bs"
  shows "concat batches = xs"
proof -
  let ?n = "nat bs"
  from assms(2) have n: "0 < ?n" by simp
  from assms have "batches = map (\<lambda>k. take ?n (drop (k * ?n) xs))
      [0 ..< (length xs + ?n - 1) div ?n]"
    by (simp add: make_batches_def)
  then have "concat batches = take ((length xs + ?n - 1) div ?n * ?n) xs"
    by (simp only: concat_chunks_take)
  moreover have "length xs \<le> (length xs + ?n - 1) div ?n * ?n"
    using n by (rule ceil_cover)
  ultimately show ?thesis by simp
qed

lemma foldl_scan_file:
  "foldl scan_file C files =
     C \<union> (\<lambda>file. py_replace ''_poses.sdf'' [] file) ` {file \<in> set files. suffix ''_poses.sdf'' file}"
  by (induction files arbitrary: C) (auto simp: scan_file_def)

lemma load_completed_pairs_fields:
  assumes "load_completed_pairs fs eng = Inr eng'"
  shows "completed_pairs eng' = completed_pairs eng \<union> scan_keys fs"
    and "max_workers eng' = max_workers eng"
    and "total_pairs eng' = total_pairs eng"
    and "config eng' = config eng"
  using assms
  by (auto simp: load_completed_pairs_def scan_keys_def foldl_scan_file
      split: if_splits sum.splits)

lemma step_total_pairs: "total_pairs (step ev fd batches s e) = total_pairs s"
  by (cases e) (simp_all add: step_def process_row_unchanged collect_batch_fields)

lemma foldl_step_total_pairs:
  "total_pairs (foldl (step ev fd batches) s es) = total_pairs s"
  by (induction es arbitrary: s) (simp_all add: step_total_pairs)

lemma run_parallel_docking_final:
  assumes ld: "load_completed_pairs fs (eng\<lparr>total_pairs := length catalog\<rparr>) = Inr eng'"
    and bs: "0 < batch_size" and mw: "0 < max_workers eng" and ne: "catalog \<noteq> []"
  shows "\<exists>s batches.
     run_parallel_docking ev sched eng fs catalog fd batch_size = Inr s \<and>
     make_batches catalog batch_size = Inr batches \<and> concat batches = catalog \<and>
     s = foldl (step ev fd batches) (initial_state eng' fs batches)
           (sched @ drain_schedule batches) \<and>
     ledger_inv (completed_pairs eng') batches s \<and>
     finished_upto (length batches) s \<and>
     (distinct (map tag_of catalog) \<longrightarrow> dispatch_inv (completed_pairs eng') batches s)"
proof -
  from bs obtain batches where mb: "make_batches catalog batch_size = Inr batches"
    by (simp add: make_batches_def)
  from concat_make_batches [OF mb bs] have cc: "concat batches = catalog" .
  let ?init = "initial_state eng' fs batches"
  let ?s = "foldl (step ev fd batches) ?init (sched @ drain_schedule batches)"
  from load_completed_pairs_fields [OF ld] have mw': "0 < max_workers eng'"
    and tp: "total_pairs eng' = length catalog" using mw by simp_all
  have mw0: "0 < max_workers ?init" using mw' by (simp add: initial_state_def)
  have "total_pairs ?s = total_pairs ?init" by (rule foldl_step_total_pairs)
  with tp ne have nz: "total_pairs ?s \<noteq> 0" by (simp add: initial_state_def)
  have run: "run_parallel_docking ev sched eng fs catalog fd batch_size = Inr ?s"
    using ld mb mw' nz by (simp add: run_parallel_docking_def Let_def)
  have li: "ledger_inv (completed_pairs eng') batches ?s"
    using initial_ledger_inv by (rule foldl_step_ledger_inv)
  have fin: "finished_upto (length batches) ?s"
    using mw0 initial_ledger_inv by (rule drain_finishes)
  have di: "distinct (map tag_of catalog) \<longrightarrow> dispatch_inv (completed_pairs eng') batches ?s"
  proof
    assume "distinct (map tag_of catalog)"
    then have "distinct (map tag_of (concat batches))" by (simp only: cc)
    from foldl_step_dispatch_inv [OF this initial_ledger_inv initial_dispatch_inv]
    show "dispatch_inv (completed_pairs eng') batches ?s" .
  qed
  from run mb cc li fin di show ?thesis by blast
qed

lemma finished_pending_concat:
  assumes "finished_upto n s"
  shows "concat (map (pending s) [0 ..< n]) = []"
  using assms by (simp add: finished_upto_def)

lemma finished_collected_perm:
  assumes "finished_upto (length batches) s" and "ledger_inv L batches s"
  shows "mset (collected s) = mset [0 ..< length batches]"
proof -
  from assms have "set (collected s) = set [0 ..< length batches]"
    by (auto simp: finished_upto_def ledger_inv_def)
  moreover from assms(2) have "distinct (collected s)" by (simp add: ledger_inv_def)
  ultimately show ?thesis by (metis distinct_upt set_eq_iff_mset_eq_distinct)
qed

lemma mset_concat_map_perm:
  assumes "mset xs = mset ys"
  shows "mset (concat (map g xs)) = mset (concat (map g ys))"
proof -
  have "\<And>zs. mset (concat (map g zs)) = sum_mset (image_mset (\<lambda>z. mset (g z)) (mset zs))"
    by (induct_tac zs) simp_all
  with assms show ?thesis by simp
qed

lemma filter_concat_nth:
  "concat (map (\<lambda>b. map f (filter P (batches ! b))) [0 ..< length batches]) =
     map f (filter P (concat batches))"
proof -
  have "map (\<lambda>b. map f (filter P (batches ! b))) [0 ..< length batches] =
      map (\<lambda>xs. map f (filter P xs)) (map ((!) batches) [0 ..< length batches])"
    by simp
  also have "\<dots> = map (\<lambda>xs. map f (filter P xs)) batches" by (simp only: map_nth)
  finally show ?thesis by (simp add: filter_concat map_concat comp_def)
qed

lemma final_batch_results:
  assumes "finished_upto (length batches) s" and "dispatch_inv L batches s"
    and "b < length batches"
  shows "map pair_id (batch_results s b) =
     map tag_of (filter (\<lambda>w. tag_of w \<notin> L) (batches ! b))"
  using assms by (simp add: finished_upto_def dispatch_inv_def)

lemma final_all_results:
  assumes fin: "finished_upto (length batches) s" and di: "dispatch_inv L batches s"
    and li: "ledger_inv L batches s"
  shows "map pair_id (all_results s) =
     concat (map (\<lambda>b. map tag_of (filter (\<lambda>w. tag_of w \<notin> L) (batches ! b))) (collected s))"
proof -
  from li have e: "all_results s = concat (map (batch_results s) (collected s))"
    and c: "\<forall>b \<in> set (collected s). b < length batches" by (simp_all add: ledger_inv_def)
  have eq: "map (\<lambda>b. map pair_id (batch_results s b)) (collected s) =
      map (\<lambda>b. map tag_of (filter (\<lambda>w. tag_of w \<notin> L) (batches ! b))) (collected s)"
    using c final_batch_results [OF fin di] by (intro map_cong refl) auto
  have "map pair_id (all_results s) =
      concat (map (\<lambda>b. map pair_id (batch_results s b)) (collected s))"
    by (simp add: e map_concat comp_def)
  then show ?thesis by (simp only: eq)
qed

lemma final_invoked:
  assumes fin: "finished_upto (length batches) s" and di: "dispatch_inv L batches s"
  shows "mset (map fst (invoked s)) = mset (filter (\<lambda>w. tag_of w \<notin> L) (concat batches))"
  using di finished_pending_concat [OF fin] by (simp add: dispatch_inv_def)

text \<open>
  C1 (as amended). Take a non-empty catalog with distinct tags, a positive batch size and
  a positive pool width, and let the completed set be the one the startup scan leaves.
  Whatever the schedule, the run returns, and it launches one child process for each work
  item whose tag is not in the completed set and none for the others, so the number of
  child processes is the size of the catalog minus the number of its items in the
  completed set. A skipped item has no result at all: the results are those of the
  dispatched items, one each. When every tag is in the completed set, no child process
  is launched and the returned list is empty.
\<close>

theorem resume_dispatch:
  assumes ld: "load_completed_pairs fs (eng\<lparr>total_pairs := length catalog\<rparr>) = Inr eng'"
    and bs: "0 < batch_size" and mw: "0 < max_workers eng" and ne: "catalog \<noteq> []"
    and dt: "distinct (map tag_of catalog)"
  shows "\<exists>s. run_parallel_docking ev sched eng fs catalog fd batch_size = Inr s \<and>
     mset (map fst (invoked s)) =
       mset (filter (\<lambda>w. tag_of w \<notin> completed_pairs eng') catalog) \<and>
     length (invoked s) =
       length catalog - length (filter (\<lambda>w. tag_of w \<in> completed_pairs eng') catalog) \<and>
     mset (map pair_id (all_results s)) =
       mset (map tag_of (filter (\<lambda>w. tag_of w \<notin> completed_pairs eng') catalog)) \<and>
     (\<forall>r \<in> set (all_results s). pair_id r \<notin> completed_pairs eng') \<and>
     ((\<forall>w \<in> set catalog. tag_of w \<in> completed_pairs eng') \<longrightarrow>
        invoked s = [] \<and> all_results s = [])"
proof -
  let ?L = "completed_pairs eng'"
  let ?P = "\<lambda>w. tag_of w \<notin> ?L"
  from run_parallel_docking_final [OF ld bs mw ne, of ev sched fd] dt
  obtain s batches where run: "run_parallel_docking ev sched eng fs catalog fd batch_size = Inr s"
    and cc: "concat batches = catalog" and li: "ledger_inv ?L batches s"
    and fin: "finished_upto (length batches) s" and di: "dispatch_inv ?L batches s"
    by blast
  have inv: "mset (map fst (invoked s)) = mset (filter ?P catalog)"
    using final_invoked [OF fin di] by (simp only: cc)
  then have "length (map fst (invoked s)) = length (filter ?P catalog)"
    by (rule mset_eq_length)
  then have "length (invoked s) = length (filter ?P catalog)" by simp
  moreover have "length (filter ?P catalog) + length (filter (\<lambda>w. tag_of w \<in> ?L) catalog) =
      length catalog"
    using sum_length_filter_compl [of "\<lambda>w. tag_of w \<in> ?L" catalog] by simp
  ultimately have len: "length (invoked s) =
      length catalog - length (filter (\<lambda>w. tag_of w \<in> ?L) catalog)" by simp
  have "mset (map pair_id (all_results s)) =
      mset (concat (map (\<lambda>b. map tag_of (filter ?P (batches ! b))) (collected s)))"
    by (simp only: final_all_results [OF fin di li])
  also have "\<dots> = mset (concat (map (\<lambda>b. map tag_of (filter ?P (batches ! b)))
      [0 ..< length batches]))"
    using finished_collected_perm [OF fin li] by (rule mset_concat_map_perm)
  also have "\<dots> = mset (map tag_of (filter ?P catalog))"
    by (simp only: filter_concat_nth cc)
  finally have res: "mset (map pair_id (all_results s)) = mset (map tag_of (filter ?P catalog))" .
  have notin: "\<forall>r \<in> set (all_results s). pair_id r \<notin> ?L"
  proof
    fix r assume "r \<in> set (all_results s)"
    then have "pair_id r \<in># mset (map pair_id (all_results s))" by simp
    then have "pair_id r \<in># mset (map tag_of (filter ?P catalog))" by (simp only: res)
    then show "pair_id r \<notin> ?L" by auto
  qed
  have allin: "(\<forall>w \<in> set catalog. tag_of w \<in> ?L) \<longrightarrow> invoked s = [] \<and> all_results s = []"
  proof
    assume "\<forall>w \<in> set catalog. tag_of w \<in> ?L"
    then have "filter ?P catalog = []" by (simp add: filter_empty_conv)
    with inv res show "invoked s = [] \<and> all_results s = []" by simp
  qed
  from run inv len res notin allin show ?thesis by blast
qed

text \<open>
  C2 (as amended). Under the same conditions the run returns the results of the dispatched
  items only, batch after batch in the order in which the main thread collects the
  batches, which is a permutation of the batch indices; within a batch the results are in
  catalog order. When the batches are collected in submission order, the results are in
  catalog order.
\<close>

theorem results_in_collection_order:
  assumes ld: "load_completed_pairs fs (eng\<lparr>total_pairs := length catalog\<rparr>) = Inr eng'"
    and bs: "0 < batch_size" and mw: "0 < max_workers eng" and ne: "catalog \<noteq> []"
    and dt: "distinct (map tag_of catalog)"
  shows "\<exists>s batches. run_parallel_docking ev sched eng fs catalog fd batch_size = Inr s \<and>
     make_batches catalog batch_size = Inr batches \<and>
     mset (collected s) = mset [0 ..< length batches] \<and>
     map pair_id (all_results s) =
       concat (map (\<lambda>b. map tag_of
                 (filter (\<lambda>w. tag_of w \<notin> completed_pairs eng') (batches ! b))) (collected s)) \<and>
     (collected s = [0 ..< length batches] \<longrightarrow>
        map pair_id (all_results s) =
        map tag_of (filter (\<lambda>w. tag_of w \<notin> completed_pairs eng') catalog))"
proof -
  let ?L = "completed_pairs eng'"
  let ?P = "\<lambda>w. tag_of w \<notin> ?L"
  from run_parallel_docking_final [OF ld bs mw ne, of ev sched fd] dt
  obtain s batches where run: "run_parallel_docking ev sched eng fs catalog fd batch_size = Inr s"
    and mb: "make_batches catalog batch_size = Inr batches"
    and cc: "concat batches = catalog" and li: "ledger_inv ?L batches s"
    and fin: "finished_upto (length batches) s" and di: "dispatch_inv ?L batches s"
    by blast
  note perm = finished_collected_perm [OF fin li]
  note res = final_all_results [OF fin di li]
  have ord: "collected s = [0 ..< length batches] \<longrightarrow>
      map pair_id (all_results s) = map tag_of (filter ?P catalog)"
  proof
    assume "collected s = [0 ..< length batches]"
    with res have "map pair_id (all_results s) =
        concat (map (\<lambda>b. map tag_of (filter ?P (batches ! b))) [0 ..< length batches])"
      by simp
    then show "map pair_id (all_results s) = map tag_of (filter ?P catalog)"
      by (simp only: filter_concat_nth cc)
  qed
  from run mb perm res ord show ?thesis by blast
qed


theorem resume_dispatch_witness:
  "(\<exists>s. run_parallel_docking (example_env True) [] fresh_engine one_done three_ligands
           Map.empty 2 = Inr s \<and>
        mset (map fst (invoked s)) = mset [lig ''a'', lig ''c''] \<and>
        length (invoked s) = 2 \<and>
        mset (map pair_id (all_results s)) = mset [''R_site_1_a'', ''R_site_1_c''])
   \<and> map_sum id (\<lambda>s. map (tag_of \<circ> fst) (invoked s))
        (run_parallel_docking (example_env True) [] fresh_engine one_done three_ligands
           Map.empty 2) = Inr [''R_site_1_a'', ''R_site_1_c'']"
proof -
  let ?eng' = "fresh_engine\<lparr>total_pairs := 3, completed_pairs := {''R_site_1_b''}\<rparr>"
  have ld: "load_completed_pairs one_done (fresh_engine\<lparr>total_pairs := length three_ligands\<rparr>) =
      Inr ?eng'" by code_simp
  have bs: "(0::int) < 2" by simp
  have mw: "0 < max_workers fresh_engine" by (simp add: fresh_engine_def)
  have ne: "three_ligands \<noteq> []" by (simp add: three_ligands_def)
  have dt: "distinct (map tag_of three_ligands)" by code_simp
  have f1: "filter (\<lambda>w. tag_of w \<notin> completed_pairs ?eng') three_ligands = [lig ''a'', lig ''c'']"
    by code_simp
  have f2: "length three_ligands -
      length (filter (\<lambda>w. tag_of w \<in> completed_pairs ?eng') three_ligands) = 2"
    by code_simp
  have f3: "map tag_of [lig ''a'', lig ''c''] = [''R_site_1_a'', ''R_site_1_c'']"
    by code_simp
  from resume_dispatch [OF ld bs mw ne dt, of "example_env True" "[]" Map.empty]
  have one: "\<exists>s. run_parallel_docking (example_env True) [] fresh_engine one_done three_ligands
           Map.empty 2 = Inr s \<and>
        mset (map fst (invoked s)) = mset [lig ''a'', lig ''c''] \<and>
        length (invoked s) = 2 \<and>
        mset (map pair_id (all_results s)) = mset [''R_site_1_a'', ''R_site_1_c'']"
    unfolding f1 f2 f3 by blast
  have two: "map_sum id (\<lambda>s. map (tag_of \<circ> fst) (invoked s))
        (run_parallel_docking (example_env True) [] fresh_engine one_done three_ligands
           Map.empty 2) = Inr [''R_site_1_a'', ''R_site_1_c'']"
    by code_simp
  from one two show ?thesis by blast
qed

text \<open>A catalog of one item whose artifact exists: the run launches nothing and returns
  the empty list, not a success result for the item.\<close>

theorem skipped_item_has_no_result:
  "map_sum id (\<lambda>s. (completed_pairs s, all_results s, invoked s))
     (run_parallel_docking (example_env True) [] fresh_engine one_done [lig ''b''] Map.empty 5) =
   Inr ({''R_site_1_b''}, [], [])"
  by code_simp

theorem results_in_collection_order_witness:
  "(\<exists>s batches. run_parallel_docking (example_env True) [] fresh_engine one_done three_ligands
           Map.empty 2 = Inr s \<and>
        make_batches three_ligands 2 = Inr batches \<and>
        mset (collected s) = mset [0 ..< length batches] \<and>
        map pair_id (all_results s) = [''R_site_1_a'', ''R_site_1_c''])
   \<and> map_sum id collected
        (run_parallel_docking (example_env True) [] fresh_engine one_done three_ligands
           Map.empty 2) = Inr [0, 1]"
proof -
  let ?eng' = "fresh_engine\<lparr>total_pairs := 3, completed_pairs := {''R_site_1_b''}\<rparr>"
  have ld: "load_completed_pairs one_done (fresh_engine\<lparr>total_pairs := length three_ligands\<rparr>) =
      Inr ?eng'" by code_simp
  have bs: "(0::int) < 2" by simp
  have mw: "0 < max_workers fresh_engine" by (simp add: fresh_engine_def)
  have ne: "three_ligands \<noteq> []" by (simp add: three_ligands_def)
  have dt: "distinct (map tag_of three_ligands)" by code_simp
  have two: "map_sum id collected
        (run_parallel_docking (example_env True) [] fresh_engine one_done three_ligands
           Map.empty 2) = Inr [0, 1]"
    by code_simp
  have nb: "map_sum id length (make_batches three_ligands 2) = Inr 2" by code_simp
  have f1: "map tag_of (filter (\<lambda>w. tag_of w \<notin> completed_pairs ?eng') three_ligands) =
      [''R_site_1_a'', ''R_site_1_c'']"
    by code_simp
  from results_in_collection_order [OF ld bs mw ne dt, of "example_env True" "[]" Map.empty]
  obtain s batches where r: "run_parallel_docking (example_env True) [] fresh_engine one_done
        three_ligands Map.empty 2 = Inr s"
    and mb: "make_batches three_ligands 2 = Inr batches"
    and perm: "mset (collected s) = mset [0 ..< length batches]"
    and ord: "collected s = [0 ..< length batches] \<longrightarrow>
        map pair_id (all_results s) =
        map tag_of (filter (\<lambda>w. tag_of w \<notin> completed_pairs ?eng') three_ligands)"
    by blast
  from nb mb have "length batches = 2" by simp
  moreover from two r have "collected s = [0, 1]" by simp
  ultimately have "collected s = [0 ..< length batches]" by (simp add: upt_rec)
  with ord f1 have "map pair_id (all_results s) = [''R_site_1_a'', ''R_site_1_c'']" by simp
  then have "run_parallel_docking (example_env True) [] fresh_engine
           one_done three_ligands Map.empty 2 = Inr s \<and>
        make_batches three_ligands 2 = Inr batches \<and>
        mset (collected s) = mset [0 ..< length batches] \<and>
        map pair_id (all_results s) = [''R_site_1_a'', ''R_site_1_c'']"
    using r mb perm by (intro conjI)
  then have "\<exists>s batches. run_parallel_docking (example_env True) [] fresh_engine
           one_done three_ligands Map.empty 2 = Inr s \<and>
        make_batches three_ligands 2 = Inr batches \<and>
        mset (collected s) = mset [0 ..< length batches] \<and>
        map pair_id (all_results s) = [''R_site_1_a'', ''R_site_1_c'']"
    by (intro exI)
  then show ?thesis using two by (rule conjI)
qed

text \<open>Two batches of one item, the second collected first: the results are in the
  order of collection, not of the catalog.\<close>

theorem results_out_of_catalog_order:
  "map_sum id (\<lambda>s. (collected s, map pair_id (all_results s)))
     (run_parallel_docking (example_env True) [Work 1, Collect 1] fresh_engine empty_dirs
        [lig ''a'', lig ''b''] Map.empty 1) =
   Inr ([1, 0], [''R_site_1_b'', ''R_site_1_a''])
   \<and> map tag_of [lig ''a'', lig ''b''] = [''R_site_1_a'', ''R_site_1_b'']"
  by code_simp



section \<open>Properties of the completion ledger\<close>

lemma map_of_delete_other: "q \<noteq> p \<Longrightarrow> map_of (delete_file fs p) q = map_of fs q"
  by (induction fs) (auto simp: delete_file_def)

lemma map_of_write_other: "q \<noteq> p \<Longrightarrow> map_of (write_text fs p c) q = map_of fs q"
  using map_of_delete_other [of q p fs] by (simp add: write_text_def delete_file_def)

lemma read_write_text: "read_text (write_text fs p c) p = Inr c"
  by (simp add: read_text_def write_text_def)

lemma map_filter_delete:
  assumes "\<And>e. f (p, e) = None"
  shows "List.map_filter f (delete_file fs p) = List.map_filter f fs"
proof (induction fs)
  case Nil
  show ?case by (simp add: delete_file_def)
next
  case (Cons a fs)
  obtain q e where a: "a = (q, e)" by (cases a)
  show ?case
  proof (cases "q = p")
    case True
    with a assms Cons show ?thesis by (simp add: delete_file_def map_filter_simps)
  next
    case False
    with a Cons show ?thesis
      by (simp add: delete_file_def map_filter_simps split: option.splits)
  qed
qed

lemma listdir_delete_other:
  assumes "d \<noteq> p" and "entry_name d p = None"
  shows "listdir (delete_file fs p) d = listdir fs d"
proof -
  have "List.map_filter (\<lambda>(q, e). entry_name d q) (delete_file fs p) =
      List.map_filter (\<lambda>(q, e). entry_name d q) fs"
    using assms(2) by (intro map_filter_delete) simp
  with assms(1) show ?thesis
    by (simp add: listdir_def map_of_delete_other cong: option.case_cong fentry.case_cong)
qed

lemma listdir_write_other:
  assumes "d \<noteq> p" and "entry_name d p = None"
  shows "listdir (write_text fs p c) d = listdir fs d"
proof -
  have "List.map_filter (\<lambda>(q, e). entry_name d q) (delete_file fs p) =
      List.map_filter (\<lambda>(q, e). entry_name d q) fs"
    using assms(2) by (intro map_filter_delete) simp
  then have "List.map_filter (\<lambda>(q, e). entry_name d q) (write_text fs p c) =
      List.map_filter (\<lambda>(q, e). entry_name d q) fs"
    using assms(2) by (simp add: write_text_def delete_file_def map_filter_simps)
  with assms(1) show ?thesis
    by (simp add: listdir_def map_of_write_other cong: option.case_cong fentry.case_cong)
qed

lemma state_file_outside_gnina_out:
  "''gnina_out'' \<noteq> state_file" "entry_name ''gnina_out'' state_file = None"
  by (simp_all add: state_file_def entry_name_def)

lemma load_completed_pairs_ignores_ledger:
  "load_completed_pairs (delete_file fs state_file) eng = load_completed_pairs fs eng"
  "load_completed_pairs (write_text fs state_file c) eng = load_completed_pairs fs eng"
  by (simp_all add: load_completed_pairs_def path_exists_def map_of_delete_other
      map_of_write_other listdir_delete_other listdir_write_other state_file_outside_gnina_out)

text \<open>
  C5 (as amended). At the start of a run the completed set is the engine's set in memory
  together with the keys of the startup scan of the artifact directory; the scan does
  not read the ledger file, so deleting or rewriting that file changes nothing. The keys
  of the ledger file are in the set only when the caller has run \<^verbatim>\<open>load_docking_state\<close>
  before: then the set is the key list of the file together with the keys of the scan.
\<close>

theorem startup_completed_set:
  "(load_completed_pairs fs eng = Inr eng' \<longrightarrow>
      completed_pairs eng' = completed_pairs eng \<union> scan_keys fs)
   \<and> load_completed_pairs (delete_file fs state_file) eng = load_completed_pairs fs eng
   \<and> load_completed_pairs (write_text fs state_file c) eng = load_completed_pairs fs eng
   \<and> (load_docking_state ev fs eng = Inr (eng_file, True) \<and>
      load_completed_pairs fs eng_file = Inr eng_both \<longrightarrow>
      (\<exists>content st. read_text fs state_file = Inr content \<and> json_load ev content = Inr st \<and>
         completed_pairs eng_both =
           set (case loaded_completed_pairs st of None \<Rightarrow> [] | Some ks \<Rightarrow> ks) \<union> scan_keys fs))"
proof -
  have four: "load_docking_state ev fs eng = Inr (eng_file, True) \<and>
      load_completed_pairs fs eng_file = Inr eng_both \<longrightarrow>
      (\<exists>content st. read_text fs state_file = Inr content \<and> json_load ev content = Inr st \<and>
         completed_pairs eng_both =
           set (case loaded_completed_pairs st of None \<Rightarrow> [] | Some ks \<Rightarrow> ks) \<union> scan_keys fs)"
  proof
    assume a: "load_docking_state ev fs eng = Inr (eng_file, True) \<and>
      load_completed_pairs fs eng_file = Inr eng_both"
    then obtain content st where c: "read_text fs state_file = Inr content"
      and j: "json_load ev content = Inr st"
      and e: "completed_pairs eng_file =
          set (case loaded_completed_pairs st of None \<Rightarrow> [] | Some ks \<Rightarrow> ks)"
      by (auto simp: load_docking_state_def split: if_splits sum.splits)
    from a have "completed_pairs eng_both = completed_pairs eng_file \<union> scan_keys fs"
      by (simp add: load_completed_pairs_fields)
    with c j e show "\<exists>content st. read_text fs state_file = Inr content \<and>
        json_load ev content = Inr st \<and>
         completed_pairs eng_both =
           set (case loaded_completed_pairs st of None \<Rightarrow> [] | Some ks \<Rightarrow> ks) \<union> scan_keys fs"
      by blast
  qed
  then show ?thesis
    by (simp add: load_completed_pairs_fields load_completed_pairs_ignores_ledger)
qed

lemma foldl_writes:
  "read_text fs p = Inr acc \<Longrightarrow>
   read_text (foldl apply_op fs (map (Write p) cs)) p = Inr (acc @ concat cs)"
proof (induction cs arbitrary: fs acc)
  case Nil
  then show ?case by simp
next
  case (Cons c cs)
  have "read_text (apply_op fs (Write p c)) p = Inr (acc @ c)"
    using Cons.prems by (simp add: read_write_text)
  from Cons.IH [OF this] show ?case by simp
qed

lemma apply_op_other:
  "q \<noteq> p \<Longrightarrow> map_of (apply_op fs (Open_w p)) q = map_of fs q"
  "q \<noteq> p \<Longrightarrow> map_of (apply_op fs (Write p c)) q = map_of fs q"
  by (simp_all add: map_of_write_other)

lemma foldl_ops_other:
  assumes "q \<noteq> p"
  shows "set ops \<subseteq> insert (Open_w p) (range (Write p)) \<Longrightarrow>
     map_of (foldl apply_op fs ops) q = map_of fs q"
proof (induction ops arbitrary: fs)
  case Nil
  show ?case by simp
next
  case (Cons a ops)
  from Cons.prems have "a = Open_w p \<or> (\<exists>c. a = Write p c)" by auto
  with assms have "map_of (apply_op fs a) q = map_of fs q" by (auto simp: map_of_write_other)
  moreover from Cons.prems have "set ops \<subseteq> insert (Open_w p) (range (Write p))" by simp
  ultimately show ?case using Cons.IH by simp
qed

lemma crash_during_save_content:
  "read_text (crash_during_save ev st (Suc k) fs) state_file =
     Inr (concat (take k (fst (json_dump ev st))))"
proof -
  have "take (Suc k) (save_ops ev st) =
      Open_w state_file # map (Write state_file) (take k (fst (json_dump ev st)))"
    by (simp add: save_ops_def take_map)
  moreover have "read_text (apply_op fs (Open_w state_file)) state_file = Inr []"
    by (simp add: read_write_text)
  ultimately show ?thesis
    using foldl_writes [of "apply_op fs (Open_w state_file)" state_file "[]"]
    by (simp add: crash_during_save_def)
qed

text \<open>
  C4 (as amended). \<^verbatim>\<open>save_docking_state\<close> writes the timestamp, the total, the completed
  keys, the number of results and the configuration to the ledger file in place: it
  truncates the file and then writes the encoded text chunk by chunk, and no other file
  changes. Before the first operation the file is untouched; after it, a crash leaves a
  prefix of the new text, empty at first; once all operations are done the file holds the
  whole new text.
\<close>

theorem save_docking_state_overwrites:
  "crash_during_save ev st 0 fs = fs
   \<and> read_text (crash_during_save ev st (Suc k) fs) state_file =
       Inr (concat (take k (fst (json_dump ev st))))
   \<and> prefix (concat (take k (fst (json_dump ev st)))) (concat (fst (json_dump ev st)))
   \<and> read_text (fst (save_docking_state ev cfg n C rs fs)) state_file =
       Inr (concat (fst (json_dump ev (docking_state ev cfg n C rs))))
   \<and> docking_state ev cfg n C rs =
       \<lparr>timestamp = now_isoformat ev, saved_total_pairs = n,
        saved_completed_pairs = list_of_set ev C, results_count = length rs,
        saved_config = cfg\<rparr>
   \<and> (\<forall>q. q \<noteq> state_file \<longrightarrow> map_of (crash_during_save ev st k fs) q = map_of fs q)"
proof -
  have pre: "prefix (concat (take k (fst (json_dump ev st)))) (concat (fst (json_dump ev st)))"
  proof -
    have "concat (fst (json_dump ev st)) =
        concat (take k (fst (json_dump ev st))) @ concat (drop k (fst (json_dump ev st)))"
      by (metis append_take_drop_id concat_append)
    then show ?thesis by (metis prefixI)
  qed
  have full: "read_text (fst (save_docking_state ev cfg n C rs fs)) state_file =
       Inr (concat (fst (json_dump ev (docking_state ev cfg n C rs))))"
  proof -
    let ?st = "docking_state ev cfg n C rs"
    have "fst (save_docking_state ev cfg n C rs fs) =
        crash_during_save ev ?st (Suc (length (fst (json_dump ev ?st)))) fs"
      by (simp add: save_docking_state_def crash_during_save_def save_ops_def Let_def)
    then show ?thesis by (simp add: crash_during_save_content)
  qed
  have other: "\<forall>q. q \<noteq> state_file \<longrightarrow> map_of (crash_during_save ev st k fs) q = map_of fs q"
  proof (intro allI impI)
    fix q :: string assume q: "q \<noteq> state_file"
    have "set (take k (save_ops ev st)) \<subseteq> insert (Open_w state_file) (range (Write state_file))"
      using set_take_subset [of k "save_ops ev st"] by (auto simp: save_ops_def)
    from foldl_ops_other [OF q this] show "map_of (crash_during_save ev st k fs) q = map_of fs q"
      by (simp add: crash_during_save_def)
  qed
  have zero: "crash_during_save ev st 0 fs = fs" by (simp add: crash_during_save_def)
  have ds: "docking_state ev cfg n C rs =
       \<lparr>timestamp = now_isoformat ev, saved_total_pairs = n,
        saved_completed_pairs = list_of_set ev C, results_count = length rs,
        saved_config = cfg\<rparr>"
    by (simp add: docking_state_def)
  from zero crash_during_save_content [of ev st k fs] pre full ds other show ?thesis
    by blast
qed

theorem startup_completed_set_witness:
  "completed_pairs (fresh_engine\<lparr>completed_pairs := {''R_site_1_b''}\<rparr>) =
     completed_pairs fresh_engine \<union> scan_keys one_done
   \<and> scan_keys one_done = {''R_site_1_b''}
   \<and> (\<exists>eng2. load_completed_pairs ledger_only
          (fresh_engine\<lparr>completed_pairs := {''R_site_1_a''}, total_pairs := 0\<rparr>) = Inr eng2 \<and>
        completed_pairs eng2 = {''R_site_1_a''} \<union> scan_keys ledger_only)"
proof -
  let ?eng' = "fresh_engine\<lparr>completed_pairs := {''R_site_1_b''}\<rparr>"
  let ?eng1 = "fresh_engine\<lparr>completed_pairs := {''R_site_1_a''}, total_pairs := 0\<rparr>"
  have ld: "load_completed_pairs one_done fresh_engine = Inr ?eng'" by code_simp
  have sk: "scan_keys one_done = {''R_site_1_b''}" by code_simp
  have lds: "load_docking_state (example_env True) ledger_only fresh_engine = Inr (?eng1, True)"
    by code_simp
  have ld2: "load_completed_pairs ledger_only ?eng1 = Inr ?eng1" by code_simp
  have rd: "read_text ledger_only state_file = Inr ''{\"completed_pairs\": [\"R_site_1_a\"]}''"
    by code_simp
  have jl: "json_load (example_env True) ''{\"completed_pairs\": [\"R_site_1_a\"]}'' =
      Inr \<lparr>loaded_completed_pairs = Some [''R_site_1_a''], loaded_total_pairs = None\<rparr>"
    by (simp add: example_env_def)
  from startup_completed_set [where fs = one_done and eng = fresh_engine and eng' = ?eng'] ld
  have c1: "completed_pairs ?eng' = completed_pairs fresh_engine \<union> scan_keys one_done"
    by blast
  from startup_completed_set [where fs = ledger_only and eng = fresh_engine
      and eng_file = ?eng1 and eng_both = ?eng1 and ev = "example_env True"] lds ld2
  obtain content st where "read_text ledger_only state_file = Inr content"
    "json_load (example_env True) content = Inr st"
    and c: "completed_pairs ?eng1 =
       set (case loaded_completed_pairs st of None \<Rightarrow> [] | Some ks \<Rightarrow> ks) \<union>
       scan_keys ledger_only" by blast
  with rd jl have "st = \<lparr>loaded_completed_pairs = Some [''R_site_1_a''],
      loaded_total_pairs = None\<rparr>" by simp
  with c have "completed_pairs ?eng1 = {''R_site_1_a''} \<union> scan_keys ledger_only" by simp
  with ld2 have c3: "\<exists>eng2. load_completed_pairs ledger_only ?eng1 = Inr eng2 \<and>
        completed_pairs eng2 = {''R_site_1_a''} \<union> scan_keys ledger_only" by blast
  from c1 sk c3 show ?thesis by blast
qed

text \<open>A ledger file that lists one key, an empty artifact directory and a new engine:
  the run starts with the empty completed set and dispatches the listed item.\<close>

theorem ledger_file_not_read_at_startup:
  "map_sum id (completed_pairs \<circ> fst)
     (load_docking_state (example_env True) ledger_only fresh_engine) = Inr {''R_site_1_a''}
   \<and> scan_keys ledger_only = {}
   \<and> map_sum id completed_pairs
       (load_completed_pairs ledger_only (fresh_engine\<lparr>total_pairs := 1\<rparr>)) = Inr {}
   \<and> map_sum id (\<lambda>s. map (tag_of \<circ> fst) (invoked s))
       (run_parallel_docking (example_env True) [] fresh_engine ledger_only [lig ''a'']
          Map.empty 5) = Inr [''R_site_1_a'']"
  by code_simp

theorem save_docking_state_overwrites_witness:
  "read_text (crash_during_save (example_env True) new_ledger 3 ledger_only) state_file =
     Inr ''{\"completed_pairs\": [''
   \<and> read_text (fst (save_docking_state (example_env True) default_config 2
          {''R_site_1_a'', ''R_site_1_b''} [] ledger_only)) state_file =
       Inr ''{\"completed_pairs\": [\"R_site_1_a\", \"R_site_1_b\"]}''
   \<and> map_of (crash_during_save (example_env True) new_ledger 3 ledger_only) ''gnina_out'' =
       Some Directory"
proof -
  note T = save_docking_state_overwrites [where ev = "example_env True" and st = new_ledger
      and k = 2 and fs = ledger_only and cfg = default_config and n = 2
      and C = "{''R_site_1_a'', ''R_site_1_b''}" and rs = "[]"]
  have e1: "concat (take 2 (fst (json_dump (example_env True) new_ledger))) =
      ''{\"completed_pairs\": [''" by code_simp
  have e2: "concat (fst (json_dump (example_env True)
      (docking_state (example_env True) default_config 2 {''R_site_1_a'', ''R_site_1_b''} []))) =
      ''{\"completed_pairs\": [\"R_site_1_a\", \"R_site_1_b\"]}''" by code_simp
  have e3: "map_of ledger_only ''gnina_out'' = Some Directory" by code_simp
  have e4: "''gnina_out'' \<noteq> state_file" by (simp add: state_file_def)
  have k: "Suc 2 = 3" by simp
  from T have "read_text (crash_during_save (example_env True) new_ledger (Suc 2) ledger_only)
      state_file = Inr (concat (take 2 (fst (json_dump (example_env True) new_ledger))))"
    by blast
  then have c1: "read_text (crash_during_save (example_env True) new_ledger 3 ledger_only)
      state_file = Inr ''{\"completed_pairs\": [''" by (simp only: e1 k)
  from T have "read_text (fst (save_docking_state (example_env True) default_config 2
          {''R_site_1_a'', ''R_site_1_b''} [] ledger_only)) state_file =
       Inr (concat (fst (json_dump (example_env True)
      (docking_state (example_env True) default_config 2 {''R_site_1_a'', ''R_site_1_b''} []))))"
    by blast
  then have c2: "read_text (fst (save_docking_state (example_env True) default_config 2
          {''R_site_1_a'', ''R_site_1_b''} [] ledger_only)) state_file =
       Inr ''{\"completed_pairs\": [\"R_site_1_a\", \"R_site_1_b\"]}''" by (simp only: e2)
  have c3: "map_of (crash_during_save (example_env True) new_ledger 3 ledger_only) ''gnina_out'' =
       Some Directory"
    using save_docking_state_overwrites [where ev = "example_env True" and st = new_ledger
      and k = 3 and fs = ledger_only and cfg = default_config and n = 2
      and C = "{''R_site_1_a'', ''R_site_1_b''}" and rs = "[]"] e3 e4 by auto
  from c1 c2 c3 show ?thesis by blast
qed

text \<open>A valid ledger file, and a crash after the first operation of the next save: the
  file is empty, which is neither the old text nor the new one, and it no longer loads.\<close>

theorem crash_leaves_truncated_ledger:
  "map_sum id (completed_pairs \<circ> fst)
     (load_docking_state (example_env True) ledger_only fresh_engine) = Inr {''R_site_1_a''}
   \<and> read_text (crash_during_save (example_env True) new_ledger 1 ledger_only) state_file =
       Inr []
   \<and> read_text ledger_only state_file = Inr ''{\"completed_pairs\": [\"R_site_1_a\"]}''
   \<and> concat (fst (json_dump (example_env True) new_ledger)) =
       ''{\"completed_pairs\": [\"R_site_1_a\", \"R_site_1_b\"]}''
   \<and> map_sum id (completed_pairs \<circ> fst)
       (load_docking_state (example_env True)
          (crash_during_save (example_env True) new_ledger 1 ledger_only) fresh_engine) =
       Inl ValueError"
  by code_simp

end
